theory Spec2Isabelle
  imports Complex_Main "HOL-Library.Word" "HOL-Library.Log_Nat" "HOL-Library.State_Monad"
begin

text \<open>
  A model of \<^verbatim>\<open>ColorGradient.h\<close>: the struct \<open>rgb\<close> with its equality operator, and the
  class \<open>Gradient\<close> with \<open>initialize\<close>, its two constructors, \<open>interpolate\<close> and
  \<open>getRgb\<close>; then the properties of \<open>getRgb\<close> that the specification states.
\<close>

section \<open>Colors and their equality operator\<close>

text \<open>
  \<^verbatim>\<open>struct rgb { uint8_t red; uint8_t green; uint8_t blue; bool operator==(rgb lhr); }\<close>
\<close>

record rgb =
  red :: "8 word"
  green :: "8 word"
  blue :: "8 word"

text \<open>\<^verbatim>\<open>static rgb INVALID_COLOR = { 0, 0, 0 };\<close>\<close>

definition INVALID_COLOR :: rgb where
  "INVALID_COLOR = \<lparr>red = 0, green = 0, blue = 0\<rparr>"

text \<open>
  \<^verbatim>\<open>bool operator==(rgb lhr) { return this == &lhr; }\<close>

  The operator compares two addresses, so the model needs objects with addresses: a memory
  is the list of the live \<open>rgb\<close> objects, and the address of an object is its index.
  The parameter \<open>lhr\<close> is passed by value: the call creates a new object, initialised from
  the argument, at the first free address. The receiver \<open>this\<close> is the address of an
  object that is alive when the call is made.
\<close>

type_synonym address = nat

definition rgb_operator_eq :: "rgb list \<Rightarrow> address \<Rightarrow> rgb \<Rightarrow> bool" where
  "rgb_operator_eq mem this arg =
     (let lhr = length mem;
          mem_in_call = mem @ [arg]
      in lhr < length mem_in_call \<and> this = lhr)"

section \<open>Floating-point arithmetic\<close>

text \<open>
  The source computes in \<open>float\<close> and \<open>double\<close>. The model is IEEE 754 binary32 and
  binary64 with round-to-nearest, ties-to-even, every operation rounded to the type the
  C++ usual arithmetic conversions give it (\<open>FLT_EVAL_METHOD == 0\<close>). A finite
  floating-point number is the rational it denotes; an operation is the exact operation on
  rationals followed by rounding to the format.

  \<open>round_ne\<close> rounds a rational to the nearest integer, a tie to the even one.
  \<open>ilog2 x\<close> is the exponent of the leading bit of a positive \<open>x\<close>.
  \<open>float_exponent p emin x\<close> is the exponent of the last significand bit of the numbers
  around \<open>x\<close> in a format with \<open>p\<close> significand bits whose smallest positive (subnormal)
  number is \<open>2 powi emin\<close>, and \<open>round_float p emin\<close> rounds to that format.

  The largest exponent of the formats is left out, since no operation of \<open>getRgb\<close>
  overflows: a vector has fewer than \<open>2 ^ 64\<close> elements and the values are 16-bit, so
  \<open>step\<close> lies between \<open>2 powi (- 64)\<close> and \<open>2 ^ 16\<close>, \<open>bin\<close> is below \<open>2 ^ 31\<close> where
  the conversion is defined, and every quotient is below \<open>2 ^ 112\<close> in absolute value,
  while binary32 reaches \<open>2 ^ 128\<close>. The sign of a zero is not kept: the source
  compares its floating-point values, converts them to integers and divides by them, and
  a division by either zero is undefined.
\<close>

definition round_ne :: "rat \<Rightarrow> int" where
  "round_ne y =
     (let f = \<lfloor>y\<rfloor>; r = y - of_int f
      in if r < 1 / 2 then f
         else if 1 / 2 < r then f + 1
         else if even f then f else f + 1)"

definition ilog2 :: "rat \<Rightarrow> int" where
  "ilog2 x =
     (let (a, b) = quotient_of x;
          d = bitlen a - bitlen b
      in if 2 powi d \<le> x then d else d - 1)"

definition float_exponent :: "nat \<Rightarrow> int \<Rightarrow> rat \<Rightarrow> int" where
  "float_exponent p emin x = max (ilog2 \<bar>x\<bar> - (int p - 1)) emin"

definition round_float :: "nat \<Rightarrow> int \<Rightarrow> rat \<Rightarrow> rat" where
  "round_float p emin x =
     (if x = 0 then 0
      else let e = float_exponent p emin x
           in of_int (round_ne (x / 2 powi e)) * 2 powi e)"

definition fl32 :: "rat \<Rightarrow> rat" where
  "fl32 = round_float 24 (- 149)"

definition fl64 :: "rat \<Rightarrow> rat" where
  "fl64 = round_float 53 (- 1074)"

text \<open>
  What C++ leaves undefined is an error value of the model: an index outside the vector,
  a division whose second operand is zero, a floating-point value converted to an integer
  type that cannot hold its truncation, and signed overflow. (Where the hardware gives an
  infinity or a NaN for a division by zero, \<open>getRgb\<close> goes on to convert a NaN to an
  integer or to read outside the vector, which is undefined too.)
\<close>

datatype error = OutOfBounds | DivisionByZero | ConversionOverflow | IntegerOverflow

definition float_of_int :: "int \<Rightarrow> rat" where
  "float_of_int i = fl32 (of_int i)"

definition double_of_int :: "int \<Rightarrow> rat" where
  "double_of_int i = fl64 (of_int i)"

definition float_div :: "rat \<Rightarrow> rat \<Rightarrow> error + rat" where
  "float_div a b = (if b = 0 then Inl DivisionByZero else Inr (fl32 (a / b)))"

definition trunc_toward_zero :: "rat \<Rightarrow> int" where
  "trunc_toward_zero x = (if 0 \<le> x then \<lfloor>x\<rfloor> else \<lceil>x\<rceil>)"

definition float_to_int :: "rat \<Rightarrow> error + int" where
  "float_to_int x =
     (let t = trunc_toward_zero x
      in if - (2 ^ 31) \<le> t \<and> t < 2 ^ 31 then Inr t else Inl ConversionOverflow)"

definition double_to_uint8 :: "rat \<Rightarrow> error + 8 word" where
  "double_to_uint8 x =
     (let t = trunc_toward_zero x
      in if 0 \<le> t \<and> t < 256 then Inr (word_of_int t) else Inl ConversionOverflow)"

section \<open>The gradient\<close>

record Gradient =
  m_min :: "16 word"
  m_minColor :: rgb
  m_minOutlierColor :: rgb
  m_max :: "16 word"
  m_maxColor :: rgb
  m_maxOutlierColor :: rgb
  m_stops :: "rgb list"

text \<open>
  \<^verbatim>\<open>rgb interpolate(rgb c1, rgb c2, float normalized_value)\<close>

  In \<^verbatim>\<open>(1.0 - normalized_value)*c1.red + normalized_value*c2.red\<close> the literal
  \<open>1.0\<close> is a \<open>double\<close>, so the difference and the first product are computed in
  \<open>double\<close>; the second product has a \<open>float\<close> and an \<open>int\<close> operand and is computed
  in \<open>float\<close>; the sum is computed in \<open>double\<close>. The cast to \<open>uint8_t\<close> truncates.
\<close>

definition blend :: "8 word \<Rightarrow> 8 word \<Rightarrow> rat \<Rightarrow> rat" where
  "blend a b normalized_value =
     fl64 (fl64 (fl64 (1 - normalized_value) * double_of_int (uint a))
           + fl32 (normalized_value * float_of_int (uint b)))"

definition interpolate_channel :: "8 word \<Rightarrow> 8 word \<Rightarrow> rat \<Rightarrow> error + 8 word" where
  "interpolate_channel a b normalized_value = double_to_uint8 (blend a b normalized_value)"

definition interpolate :: "rgb \<Rightarrow> rgb \<Rightarrow> rat \<Rightarrow> error + rgb" where
  "interpolate c1 c2 normalized_value =
     (if normalized_value \<le> 0 then Inr c1
      else if 1 \<le> normalized_value then Inr c2
      else case interpolate_channel (red c1) (red c2) normalized_value of
             Inl e \<Rightarrow> Inl e
           | Inr r \<Rightarrow>
          (case interpolate_channel (green c1) (green c2) normalized_value of
             Inl e \<Rightarrow> Inl e
           | Inr g \<Rightarrow>
          (case interpolate_channel (blue c1) (blue c2) normalized_value of
             Inl e \<Rightarrow> Inl e
           | Inr b \<Rightarrow> Inr \<lparr>red = r, green = g, blue = b\<rparr>)))"

text \<open>
  The specification's sentence on interpolation, read as it is written, with the
  arithmetic of the rationals: a channel is \<open>(1 - t) * c1.channel + t * c2.channel\<close>
  rounded toward zero, and \<open>t \<le> 0\<close> and \<open>t \<ge> 1\<close> return \<open>c1\<close> and \<open>c2\<close>.
  \<open>spec_interpolate\<close> is compared with \<open>interpolate\<close> below.
\<close>

definition exact_blend :: "8 word \<Rightarrow> 8 word \<Rightarrow> rat \<Rightarrow> rat" where
  "exact_blend a b t = (1 - t) * of_int (uint a) + t * of_int (uint b)"

definition spec_interpolate :: "rgb \<Rightarrow> rgb \<Rightarrow> rat \<Rightarrow> rgb" where
  "spec_interpolate c1 c2 t =
     (if t \<le> 0 then c1
      else if 1 \<le> t then c2
      else \<lparr>red = word_of_int (trunc_toward_zero (exact_blend (red c1) (red c2) t)),
            green = word_of_int (trunc_toward_zero (exact_blend (green c1) (green c2) t)),
            blue = word_of_int (trunc_toward_zero (exact_blend (blue c1) (blue c2) t))\<rparr>)"

text \<open>
  \<^verbatim>\<open>void initialize(uint16_t min, uint16_t max, std::vector<rgb> stops,
     rgb minOutlierColor = INVALID_COLOR, rgb maxOutlierColor = INVALID_COLOR)\<close>
  assigns five of the seven fields; \<open>m_minColor\<close> and \<open>m_maxColor\<close> are never written.
\<close>

definition initialize :: "Gradient \<Rightarrow> 16 word \<Rightarrow> 16 word \<Rightarrow> rgb list \<Rightarrow> rgb \<Rightarrow> rgb \<Rightarrow> Gradient" where
  "initialize g min_v max_v stops minOutlierColor maxOutlierColor =
     g\<lparr>m_min := min_v, m_max := max_v, m_stops := stops,
       m_minOutlierColor := minOutlierColor, m_maxOutlierColor := maxOutlierColor\<rparr>"

text \<open>The call with both outlier colors left to their default arguments.\<close>

definition initialize_default :: "Gradient \<Rightarrow> 16 word \<Rightarrow> 16 word \<Rightarrow> rgb list \<Rightarrow> Gradient" where
  "initialize_default g min_v max_v stops =
     initialize g min_v max_v stops INVALID_COLOR INVALID_COLOR"

text \<open>
  \<^verbatim>\<open>Gradient() {}\<close> leaves the scalar and color fields indeterminate and the vector
  empty: the argument \<open>junk\<close> is whatever the object's memory held.
  \<^verbatim>\<open>Gradient(min, max, stops, minOutlierColor, maxOutlierColor)\<close> starts from such an
  object too and calls \<open>initialize\<close>.
\<close>

definition Gradient_default :: "Gradient \<Rightarrow> Gradient" where
  "Gradient_default junk = junk\<lparr>m_stops := []\<rparr>"

definition Gradient_init :: "Gradient \<Rightarrow> 16 word \<Rightarrow> 16 word \<Rightarrow> rgb list \<Rightarrow> rgb \<Rightarrow> rgb \<Rightarrow> Gradient" where
  "Gradient_init junk min_v max_v stops minOutlierColor maxOutlierColor =
     initialize (junk\<lparr>m_stops := []\<rparr>) min_v max_v stops minOutlierColor maxOutlierColor"

text \<open>
  The \<open>rgb\<close> objects alive during a call of \<open>getRgb\<close>, in a fixed order: the global
  \<open>INVALID_COLOR\<close>, the four color fields of the gradient and the elements of its vector.
\<close>

definition objects :: "Gradient \<Rightarrow> rgb list" where
  "objects g =
     [INVALID_COLOR, m_minColor g, m_minOutlierColor g, m_maxColor g, m_maxOutlierColor g]
     @ m_stops g"

definition addr_minOutlierColor :: address where
  "addr_minOutlierColor = 2"

definition addr_maxOutlierColor :: address where
  "addr_maxOutlierColor = 4"

text \<open>\<open>m_stops.front()\<close>, \<open>m_stops.back()\<close> and \<open>m_stops[i]\<close> with an \<open>int\<close> index.\<close>

definition vector_front :: "rgb list \<Rightarrow> error + rgb" where
  "vector_front xs = (case xs of [] \<Rightarrow> Inl OutOfBounds | x # _ \<Rightarrow> Inr x)"

definition vector_back :: "rgb list \<Rightarrow> error + rgb" where
  "vector_back xs = (if xs = [] then Inl OutOfBounds else Inr (last xs))"

definition vector_at :: "rgb list \<Rightarrow> int \<Rightarrow> error + rgb" where
  "vector_at xs i = (if 0 \<le> i \<and> nat i < length xs then Inr (xs ! nat i) else Inl OutOfBounds)"

text \<open>\<open>m_stops.size() - 1\<close> in the 64-bit unsigned \<open>size_t\<close>: it wraps for an empty vector.\<close>

definition size_minus_1 :: "rgb list \<Rightarrow> nat" where
  "size_minus_1 xs = (if xs = [] then 2 ^ 64 - 1 else length xs - 1)"

definition int_add :: "int \<Rightarrow> int \<Rightarrow> error + int" where
  "int_add a b =
     (if - (2 ^ 31) \<le> a + b \<and> a + b < 2 ^ 31 then Inr (a + b) else Inl IntegerOverflow)"

text \<open>
  The part of \<open>getRgb\<close> after the outlier tests, from \<open>range\<close> to the call of
  \<open>interpolate\<close>. \<open>find_bin\<close> is the value of the local variable \<open>bin\<close>.
\<close>

definition step_of :: "Gradient \<Rightarrow> error + rat" where
  "step_of g =
     (let range = m_max g - m_min g
      in float_div (float_of_int (uint range)) (fl32 (of_nat (size_minus_1 (m_stops g)))))"

definition find_bin :: "Gradient \<Rightarrow> 16 word \<Rightarrow> error + int" where
  "find_bin g val =
     (let v = val - m_min g
      in case step_of g of
           Inl e \<Rightarrow> Inl e
         | Inr step \<Rightarrow>
        (case float_div (float_of_int (uint v)) step of
           Inl e \<Rightarrow> Inl e
         | Inr q \<Rightarrow> float_to_int q))"

definition getRgb_in_range :: "Gradient \<Rightarrow> 16 word \<Rightarrow> error + rgb" where
  "getRgb_in_range g val =
     (let v = val - m_min g
      in case step_of g of
           Inl e \<Rightarrow> Inl e
         | Inr step \<Rightarrow>
        (case find_bin g val of
           Inl e \<Rightarrow> Inl e
         | Inr bin \<Rightarrow>
        (case float_div (fl32 (float_of_int (uint v) - fl32 (float_of_int bin * step))) step of
           Inl e \<Rightarrow> Inl e
         | Inr normalized_v \<Rightarrow>
        (case vector_at (m_stops g) bin of
           Inl e \<Rightarrow> Inl e
         | Inr c1 \<Rightarrow>
        (case int_add bin 1 of
           Inl e \<Rightarrow> Inl e
         | Inr bin1 \<Rightarrow>
        (case vector_at (m_stops g) bin1 of
           Inl e \<Rightarrow> Inl e
         | Inr c2 \<Rightarrow> interpolate c1 c2 normalized_v))))))"

text \<open>\<^verbatim>\<open>rgb getRgb(uint16_t value)\<close>\<close>

definition getRgb :: "Gradient \<Rightarrow> 16 word \<Rightarrow> error + rgb" where
  "getRgb g val =
     (if val < m_min g then
        (if rgb_operator_eq (objects g) addr_minOutlierColor INVALID_COLOR
         then vector_front (m_stops g) else Inr (m_minOutlierColor g))
      else if m_max g < val then
        (if rgb_operator_eq (objects g) addr_maxOutlierColor INVALID_COLOR
         then vector_back (m_stops g) else Inr (m_maxOutlierColor g))
      else getRgb_in_range g val)"

text \<open>
  Concrete values for the examples: four colors, a list of five stops, and the memory of
  an object before any constructor has run.
\<close>

abbreviation white :: rgb where
  "white \<equiv> \<lparr>red = 255, green = 255, blue = 255\<rparr>"

abbreviation pure_red :: rgb where
  "pure_red \<equiv> \<lparr>red = 255, green = 0, blue = 0\<rparr>"

abbreviation black :: rgb where
  "black \<equiv> \<lparr>red = 0, green = 0, blue = 0\<rparr>"

abbreviation stop_10_20_30 :: rgb where
  "stop_10_20_30 \<equiv> \<lparr>red = 10, green = 20, blue = 30\<rparr>"

abbreviation five_stops :: "rgb list" where
  "five_stops \<equiv> [white, pure_red, black, pure_red, white]"

abbreviation raw_object :: Gradient where
  "raw_object \<equiv>
     \<lparr>m_min = 7, m_minColor = pure_red, m_minOutlierColor = white, m_max = 3,
       m_maxColor = white, m_maxOutlierColor = pure_red, m_stops = []\<rparr>"

section \<open>Reads that are not checked\<close>

text \<open>
  \<open>m_stops[i]\<close> does not check its index. \<open>vector_at\<close> above makes a read outside the
  vector an error. \<open>vector_read\<close> gives the value such a read yields instead: inside the
  vector the element, outside it whatever the memory at that place holds, \<open>past i\<close>.
  \<open>getRgb_unchecked\<close> is \<open>getRgb\<close> with the two reads of \<open>m_stops\<close> done by
  \<open>vector_read\<close>; everything else is the same, statement by statement.
\<close>

definition vector_read :: "(int \<Rightarrow> rgb) \<Rightarrow> rgb list \<Rightarrow> int \<Rightarrow> rgb" where
  "vector_read past xs i = (if 0 \<le> i \<and> nat i < length xs then xs ! nat i else past i)"

definition getRgb_in_range_unchecked :: "(int \<Rightarrow> rgb) \<Rightarrow> Gradient \<Rightarrow> 16 word \<Rightarrow> error + rgb" where
  "getRgb_in_range_unchecked past g val =
     (let v = val - m_min g
      in case step_of g of
           Inl e \<Rightarrow> Inl e
         | Inr step \<Rightarrow>
        (case find_bin g val of
           Inl e \<Rightarrow> Inl e
         | Inr bin \<Rightarrow>
        (case float_div (fl32 (float_of_int (uint v) - fl32 (float_of_int bin * step))) step of
           Inl e \<Rightarrow> Inl e
         | Inr normalized_v \<Rightarrow>
        (case int_add bin 1 of
           Inl e \<Rightarrow> Inl e
         | Inr bin1 \<Rightarrow>
             interpolate (vector_read past (m_stops g) bin) (vector_read past (m_stops g) bin1)
               normalized_v))))"

definition getRgb_unchecked :: "(int \<Rightarrow> rgb) \<Rightarrow> Gradient \<Rightarrow> 16 word \<Rightarrow> error + rgb" where
  "getRgb_unchecked past g val =
     (if val < m_min g then
        (if rgb_operator_eq (objects g) addr_minOutlierColor INVALID_COLOR
         then vector_front (m_stops g) else Inr (m_minOutlierColor g))
      else if m_max g < val then
        (if rgb_operator_eq (objects g) addr_maxOutlierColor INVALID_COLOR
         then vector_back (m_stops g) else Inr (m_maxOutlierColor g))
      else getRgb_in_range_unchecked past g val)"

section \<open>The member functions as state transformers\<close>

text \<open>
  A member function runs on an object that it may read and write. Here the functions of
  \<open>Gradient\<close> are written once more, statement by statement, in the state monad whose
  state is the object: \<open>read_member\<close> is the use of a field in an expression and
  \<open>write_member\<close> an assignment to a field. \<open>initialize\<close> is five assignments.
  \<open>getRgb\<close> reads \<open>m_min\<close>, \<open>m_max\<close>, \<open>m_stops\<close> and the outlier colors, calls
  \<open>operator==\<close> on an outlier color and \<open>interpolate\<close>, and declares its local variables
  \<open>range\<close>, \<open>v\<close>, \<open>step\<close>, \<open>bin\<close> and \<open>normalized_v\<close>; \<open>operator==\<close> and
  \<open>interpolate\<close> have no assignment to a field either.
\<close>

definition read_member :: "(Gradient \<Rightarrow> 'a) \<Rightarrow> (Gradient, 'a) state" where
  "read_member field = do { g \<leftarrow> State_Monad.get; State_Monad.return (field g) }"

definition write_member :: "(('a \<Rightarrow> 'a) \<Rightarrow> Gradient \<Rightarrow> Gradient) \<Rightarrow> 'a \<Rightarrow> (Gradient, unit) state" where
  "write_member field_update x =
     do { g \<leftarrow> State_Monad.get; State_Monad.set (field_update (\<lambda>_. x) g) }"

definition initialize_member ::
    "16 word \<Rightarrow> 16 word \<Rightarrow> rgb list \<Rightarrow> rgb \<Rightarrow> rgb \<Rightarrow> (Gradient, unit) state" where
  "initialize_member min_v max_v stops minOutlierColor maxOutlierColor =
     do {
       write_member m_min_update min_v;
       write_member m_max_update max_v;
       write_member m_stops_update stops;
       write_member m_minOutlierColor_update minOutlierColor;
       write_member m_maxOutlierColor_update maxOutlierColor
     }"

definition operator_eq_member :: "address \<Rightarrow> rgb \<Rightarrow> (Gradient, bool) state" where
  "operator_eq_member this arg =
     do { g \<leftarrow> State_Monad.get; State_Monad.return (rgb_operator_eq (objects g) this arg) }"

definition interpolate_member :: "rgb \<Rightarrow> rgb \<Rightarrow> rat \<Rightarrow> (Gradient, error + rgb) state" where
  "interpolate_member c1 c2 normalized_value =
     State_Monad.return (interpolate c1 c2 normalized_value)"

definition getRgb_member :: "16 word \<Rightarrow> (Gradient, error + rgb) state" where
  "getRgb_member val =
     do {
       lo \<leftarrow> read_member m_min;
       if val < lo then
         do {
           is_invalid \<leftarrow> operator_eq_member addr_minOutlierColor INVALID_COLOR;
           if is_invalid
           then do { stops \<leftarrow> read_member m_stops; State_Monad.return (vector_front stops) }
           else do { c \<leftarrow> read_member m_minOutlierColor; State_Monad.return (Inr c) }
         }
       else
         do {
           hi \<leftarrow> read_member m_max;
           if hi < val then
             do {
               is_invalid \<leftarrow> operator_eq_member addr_maxOutlierColor INVALID_COLOR;
               if is_invalid
               then do { stops \<leftarrow> read_member m_stops; State_Monad.return (vector_back stops) }
               else do { c \<leftarrow> read_member m_maxOutlierColor; State_Monad.return (Inr c) }
             }
           else
             do {
               hi \<leftarrow> read_member m_max;
               lo \<leftarrow> read_member m_min;
               let range = hi - lo;
               let v = val - lo;
               stops \<leftarrow> read_member m_stops;
               case float_div (float_of_int (uint range)) (fl32 (of_nat (size_minus_1 stops))) of
                 Inl e \<Rightarrow> State_Monad.return (Inl e)
               | Inr step \<Rightarrow>
              (case float_div (float_of_int (uint v)) step of
                 Inl e \<Rightarrow> State_Monad.return (Inl e)
               | Inr q \<Rightarrow>
              (case float_to_int q of
                 Inl e \<Rightarrow> State_Monad.return (Inl e)
               | Inr bin \<Rightarrow>
              (case float_div (fl32 (float_of_int (uint v) - fl32 (float_of_int bin * step))) step of
                 Inl e \<Rightarrow> State_Monad.return (Inl e)
               | Inr normalized_v \<Rightarrow>
              (case vector_at stops bin of
                 Inl e \<Rightarrow> State_Monad.return (Inl e)
               | Inr c1 \<Rightarrow>
              (case int_add bin 1 of
                 Inl e \<Rightarrow> State_Monad.return (Inl e)
               | Inr bin1 \<Rightarrow>
              (case vector_at stops bin1 of
                 Inl e \<Rightarrow> State_Monad.return (Inl e)
               | Inr c2 \<Rightarrow> interpolate_member c1 c2 normalized_v))))))
             }
         }
     }"


section \<open>Properties of rounding\<close>

lemma round_ne_of_int: "round_ne (of_int k) = k"
  by (simp add: round_ne_def)

lemma round_ne_error: "\<bar>of_int (round_ne y) - y\<bar> \<le> 1 / 2"
proof -
  have "of_int \<lfloor>y\<rfloor> \<le> y" "y < of_int \<lfloor>y\<rfloor> + 1" by linarith+
  then show ?thesis
    by (auto simp add: round_ne_def Let_def)
qed

lemma round_ne_mono: "x \<le> y \<Longrightarrow> round_ne x \<le> round_ne y"
proof -
  assume xy: "x \<le> y"
  have fx: "of_int \<lfloor>x\<rfloor> \<le> x" "x < of_int \<lfloor>x\<rfloor> + 1" by linarith+
  have fy: "of_int \<lfloor>y\<rfloor> \<le> y" "y < of_int \<lfloor>y\<rfloor> + 1" by linarith+
  have le: "\<lfloor>x\<rfloor> \<le> \<lfloor>y\<rfloor>" using xy by (rule floor_mono)
  have lo: "\<lfloor>y\<rfloor> \<le> round_ne y" by (simp add: round_ne_def Let_def)
  have hi: "round_ne x \<le> \<lfloor>x\<rfloor> + 1" by (simp add: round_ne_def Let_def)
  show ?thesis
  proof (cases "\<lfloor>x\<rfloor> = \<lfloor>y\<rfloor>")
    case True
    then show ?thesis using xy by (auto simp add: round_ne_def Let_def)
  next
    case False
    then have "\<lfloor>x\<rfloor> + 1 \<le> \<lfloor>y\<rfloor>" using le by linarith
    then show ?thesis using lo hi by linarith
  qed
qed

lemma bitlen_powi_bounds:
  fixes a :: int
  assumes "0 < a"
  shows "(2::rat) powi (bitlen a - 1) \<le> of_int a" and "of_int a < (2::rat) powi (bitlen a)"
proof -
  from bitlen_bounds [OF assms]
  have 1: "2 ^ nat (bitlen a - 1) \<le> a" and 2: "a < 2 ^ nat (bitlen a)" by auto
  have ge: "1 \<le> bitlen a"
    using assms bitlen_eq_zero_iff [of a] bitlen_nonneg [of a] by linarith
  have "(2::rat) powi (bitlen a - 1) = of_int (2 ^ nat (bitlen a - 1))"
    using ge by (simp add: power_int_nonneg_exp)
  also have "\<dots> \<le> of_int a" using 1 by (simp only: of_int_le_iff)
  finally show "(2::rat) powi (bitlen a - 1) \<le> of_int a" .
  have "(of_int a :: rat) < of_int (2 ^ nat (bitlen a))" using 2 by (simp only: of_int_less_iff)
  also have "\<dots> = 2 powi (bitlen a)" using ge by (simp add: power_int_nonneg_exp)
  finally show "of_int a < (2::rat) powi (bitlen a)" .
qed

lemma ilog2_bounds:
  assumes "0 < x"
  shows "2 powi (ilog2 x) \<le> x" and "x < 2 powi (ilog2 x + 1)"
proof -
  obtain a b where q: "quotient_of x = (a, b)" by (cases "quotient_of x")
  have b: "0 < b" using q by (rule quotient_of_denom_pos)
  have x: "x = of_int a / of_int b" using q by (rule quotient_of_div)
  have a: "0 < a" using assms b x by (simp add: zero_less_divide_iff)
  note A = bitlen_powi_bounds [OF a] and B = bitlen_powi_bounds [OF b]
  let ?d = "bitlen a - bitlen b"
  have bpos: "(0::rat) < of_int b" using b by simp
  have up: "x < 2 powi (?d + 1)"
  proof -
    have "of_int a < (2::rat) powi (bitlen a)" using A by simp
    also have "\<dots> = 2 powi (?d + 1) * 2 powi (bitlen b - 1)"
      by (simp flip: power_int_add)
    also have "\<dots> \<le> 2 powi (?d + 1) * of_int b"
      using B(1) by (intro mult_left_mono) simp_all
    finally show ?thesis using bpos by (simp add: x pos_divide_less_eq)
  qed
  have lo: "2 powi (?d - 1) < x"
  proof -
    have "(2::rat) powi (?d - 1) * of_int b < 2 powi (?d - 1) * 2 powi (bitlen b)"
      using B(2) by (intro mult_strict_left_mono) simp_all
    also have "\<dots> = 2 powi (bitlen a - 1)"
      by (simp flip: power_int_add)
    also have "\<dots> \<le> of_int a" using A by simp
    finally show ?thesis using bpos by (simp add: x pos_less_divide_eq)
  qed
  show "2 powi (ilog2 x) \<le> x"
    using lo by (auto simp add: ilog2_def q Let_def)
  show "x < 2 powi (ilog2 x + 1)"
    using up by (auto simp add: ilog2_def q Let_def not_le)
qed

lemma ilog2_less: "0 < x \<Longrightarrow> x < 2 powi k \<Longrightarrow> ilog2 x < k"
proof (rule ccontr)
  assume x: "0 < x" "x < 2 powi k" and "\<not> ilog2 x < k"
  then have "k \<le> ilog2 x" by simp
  then have "(2::rat) powi k \<le> 2 powi (ilog2 x)" by (intro power_int_increasing) simp_all
  also have "\<dots> \<le> x" using ilog2_bounds(1) [OF x(1)] .
  finally show False using x(2) by simp
qed

lemma ilog2_ge: "0 < x \<Longrightarrow> 2 powi k \<le> x \<Longrightarrow> k \<le> ilog2 x"
proof (rule ccontr)
  assume x: "0 < x" "2 powi k \<le> x" and "\<not> k \<le> ilog2 x"
  then have "ilog2 x + 1 \<le> k" by simp
  then have "(2::rat) powi (ilog2 x + 1) \<le> 2 powi k" by (intro power_int_increasing) simp_all
  then show False using ilog2_bounds(2) [OF x(1)] x(2) by linarith
qed

lemma ilog2_mono: "0 < x \<Longrightarrow> x \<le> y \<Longrightarrow> ilog2 x \<le> ilog2 y"
proof -
  assume x: "0 < x" "x \<le> y"
  have "2 powi (ilog2 x) \<le> y" using ilog2_bounds(1) [OF x(1)] x(2) by linarith
  then show ?thesis using x by (intro ilog2_ge) simp_all
qed

lemma round_float_0: "round_float p emin 0 = 0"
  by (simp add: round_float_def)

lemma round_float_eq:
  "x \<noteq> 0 \<Longrightarrow> round_float p emin x =
     of_int (round_ne (x / 2 powi float_exponent p emin x)) * 2 powi float_exponent p emin x"
  by (simp add: round_float_def Let_def)

lemma round_float_error:
  "\<bar>round_float p emin x - x\<bar> \<le> 2 powi (float_exponent p emin x - 1)"
proof (cases "x = 0")
  case True
  then show ?thesis by (simp add: round_float_0)
next
  case False
  let ?e = "float_exponent p emin x"
  let ?y = "x / 2 powi ?e"
  have "round_float p emin x - x = (of_int (round_ne ?y) - ?y) * 2 powi ?e"
    using False by (simp add: round_float_eq algebra_simps)
  then have "\<bar>round_float p emin x - x\<bar> = \<bar>of_int (round_ne ?y) - ?y\<bar> * 2 powi ?e"
    by (simp add: abs_mult)
  also have "\<dots> \<le> (1 / 2) * 2 powi ?e"
    using round_ne_error [of ?y] by (intro mult_right_mono) simp_all
  also have "\<dots> = 2 powi (?e - 1)"
    by (simp add: power_int_diff)
  finally show ?thesis .
qed

lemma float_exponent_le:
  assumes "x \<noteq> 0" "\<bar>x\<bar> < 2 powi k" "emin \<le> k - int p"
  shows "float_exponent p emin x \<le> k - int p"
  using ilog2_less [of "\<bar>x\<bar>" k] assms by (simp add: float_exponent_def)

lemma round_float_abs_error:
  assumes "\<bar>x\<bar> < 2 powi k" "emin \<le> k - int p"
  shows "\<bar>round_float p emin x - x\<bar> \<le> 2 powi (k - int p - 1)"
proof (cases "x = 0")
  case True
  then show ?thesis by (simp add: round_float_0)
next
  case False
  have "float_exponent p emin x - 1 \<le> k - int p - 1"
    using float_exponent_le [OF False assms] by simp
  then have "(2::rat) powi (float_exponent p emin x - 1) \<le> 2 powi (k - int p - 1)"
    by (intro power_int_increasing) simp_all
  then show ?thesis using round_float_error [of p emin x] by linarith
qed

lemma grid_scale:
  assumes "e \<le> e'"
  shows "(of_int m :: rat) * 2 powi e' / 2 powi e = of_int (m * 2 ^ nat (e' - e))"
proof -
  have "(of_int m :: rat) * 2 powi e' / 2 powi e = of_int m * 2 powi (e' - e)"
    by (simp add: power_int_diff)
  also have "\<dots> = of_int (m * 2 ^ nat (e' - e))"
    using assms by (simp add: power_int_nonneg_exp)
  finally show ?thesis .
qed

lemma grid_unscale:
  assumes "e \<le> e'"
  shows "(of_int (m * 2 ^ nat (e' - e)) :: rat) * 2 powi e = of_int m * 2 powi e'"
proof -
  have "(of_int (m * 2 ^ nat (e' - e)) :: rat) = of_int m * 2 powi e' / 2 powi e"
    using grid_scale [OF assms, of m] by simp
  then show ?thesis by simp
qed

lemma round_float_le_grid:
  assumes "x \<le> of_int m * 2 powi e'" "float_exponent p emin x \<le> e'"
  shows "round_float p emin x \<le> of_int m * 2 powi e'"
proof (cases "x = 0")
  case True
  then show ?thesis using assms(1) by (simp add: round_float_0)
next
  case False
  let ?e = "float_exponent p emin x"
  have "x / 2 powi ?e \<le> of_int m * 2 powi e' / 2 powi ?e"
    using assms(1) by (intro divide_right_mono) simp_all
  then have "x / 2 powi ?e \<le> of_int (m * 2 ^ nat (e' - ?e))"
    by (simp only: grid_scale [OF assms(2)])
  then have "round_ne (x / 2 powi ?e) \<le> m * 2 ^ nat (e' - ?e)"
    using round_ne_mono round_ne_of_int by metis
  then have "(of_int (round_ne (x / 2 powi ?e)) :: rat) \<le> of_int (m * 2 ^ nat (e' - ?e))"
    by (simp only: of_int_le_iff)
  then have "of_int (round_ne (x / 2 powi ?e)) * 2 powi ?e
      \<le> (of_int (m * 2 ^ nat (e' - ?e)) :: rat) * 2 powi ?e"
    by (intro mult_right_mono) simp_all
  then show ?thesis
    by (simp only: grid_unscale [OF assms(2)] round_float_eq [OF False])
qed

lemma round_float_ge_grid:
  assumes "of_int m * 2 powi e' \<le> x" "float_exponent p emin x \<le> e'"
  shows "of_int m * 2 powi e' \<le> round_float p emin x"
proof (cases "x = 0")
  case True
  then show ?thesis using assms(1) by (simp add: round_float_0)
next
  case False
  let ?e = "float_exponent p emin x"
  have "of_int m * 2 powi e' / 2 powi ?e \<le> x / 2 powi ?e"
    using assms(1) by (intro divide_right_mono) simp_all
  then have "of_int (m * 2 ^ nat (e' - ?e)) \<le> x / 2 powi ?e"
    by (simp only: grid_scale [OF assms(2)])
  then have "m * 2 ^ nat (e' - ?e) \<le> round_ne (x / 2 powi ?e)"
    using round_ne_mono round_ne_of_int by metis
  then have "(of_int (m * 2 ^ nat (e' - ?e)) :: rat) \<le> of_int (round_ne (x / 2 powi ?e))"
    by (simp only: of_int_le_iff)
  then have "(of_int (m * 2 ^ nat (e' - ?e)) :: rat) * 2 powi ?e
      \<le> of_int (round_ne (x / 2 powi ?e)) * 2 powi ?e"
    by (intro mult_right_mono) simp_all
  then show ?thesis
    by (simp only: grid_unscale [OF assms(2)] round_float_eq [OF False])
qed

lemma float_exponent_grid:
  assumes "m \<noteq> 0" "\<bar>m\<bar> < 2 ^ p" "emin \<le> e'"
  shows "float_exponent p emin (of_int m * 2 powi e') \<le> e'"
proof -
  let ?x = "of_int m * 2 powi e' :: rat"
  have x0: "0 < \<bar>?x\<bar>" using assms(1) by simp
  have "(of_int \<bar>m\<bar> :: rat) < of_int (2 ^ p)" using assms(2) by (simp only: of_int_less_iff)
  then have "(of_int \<bar>m\<bar> :: rat) < 2 ^ p" by simp
  have "\<bar>?x\<bar> = of_int \<bar>m\<bar> * 2 powi e'" by (simp add: abs_mult)
  also have "\<dots> < 2 ^ p * 2 powi e'"
    using \<open>(of_int \<bar>m\<bar> :: rat) < 2 ^ p\<close> by (intro mult_strict_right_mono) simp_all
  also have "\<dots> = 2 powi (int p + e')" by (simp add: power_int_add)
  finally have "ilog2 \<bar>?x\<bar> < int p + e'" using x0 by (intro ilog2_less)
  then show ?thesis using assms(3) by (simp add: float_exponent_def)
qed

lemma round_float_exact:
  assumes "\<bar>m\<bar> < 2 ^ p" "emin \<le> e'"
  shows "round_float p emin (of_int m * 2 powi e') = of_int m * 2 powi e'"
proof (cases "m = 0")
  case True
  then show ?thesis by (simp add: round_float_0)
next
  case False
  note e = float_exponent_grid [OF False assms]
  show ?thesis
    using round_float_le_grid [OF order_refl e] round_float_ge_grid [OF order_refl e]
    by (rule antisym)
qed

lemma float_exponent_mono:
  assumes "0 < x" "x \<le> y"
  shows "float_exponent p emin x \<le> float_exponent p emin y"
  using ilog2_mono [of x y] assms by (simp add: float_exponent_def)

lemma round_float_nonneg: "0 \<le> x \<Longrightarrow> 0 \<le> round_float p emin x"
  using round_float_ge_grid [of 0 "float_exponent p emin x" x p emin] by simp

lemma round_float_mono:
  assumes p: "0 < p" and x: "0 \<le> x" and xy: "x \<le> y"
  shows "round_float p emin x \<le> round_float p emin y"
proof (cases "x = 0")
  case True
  then show ?thesis using round_float_nonneg [of y p emin] xy by (simp add: round_float_0)
next
  case False
  then have x0: "0 < x" and y0: "0 < y" using x xy by simp_all
  let ?ex = "float_exponent p emin x" and ?ey = "float_exponent p emin y"
  have le: "?ex \<le> ?ey" using x0 xy by (rule float_exponent_mono)
  show ?thesis
  proof (cases "?ex = ?ey")
    case True
    have "x / 2 powi ?ex \<le> y / 2 powi ?ex"
      using xy by (intro divide_right_mono) simp_all
    then have "(of_int (round_ne (x / 2 powi ?ex)) :: rat) \<le> of_int (round_ne (y / 2 powi ?ex))"
      by (simp only: of_int_le_iff round_ne_mono)
    then have "of_int (round_ne (x / 2 powi ?ex)) * 2 powi ?ex
        \<le> (of_int (round_ne (y / 2 powi ?ex)) :: rat) * 2 powi ?ex"
      by (intro mult_right_mono) simp_all
    then show ?thesis
      using x0 y0 True by (simp add: round_float_eq)
  next
    case False
    then have lt: "?ex < ?ey" using le by simp
    have ax: "\<bar>x\<bar> = x" and ay: "\<bar>y\<bar> = y" using x0 y0 by simp_all
    have ey: "?ey = ilog2 y - (int p - 1)"
      using lt by (simp add: float_exponent_def ay max_def split: if_splits)
    have lx: "ilog2 x + 1 \<le> ilog2 y"
      using lt ilog2_mono [OF x0 xy] by (simp add: float_exponent_def ax ay max_def split: if_splits)
    define M where "M = max (ilog2 x + 1) ?ex"
    have M: "M \<le> ilog2 y" using lx lt ey p by (simp add: M_def)
    have "x \<le> 2 powi (ilog2 x + 1)" using ilog2_bounds(2) [OF x0] by simp
    also have "\<dots> \<le> 2 powi M" by (intro power_int_increasing) (simp_all add: M_def)
    finally have "x \<le> of_int 1 * 2 powi M" by simp
    then have "round_float p emin x \<le> of_int 1 * 2 powi M"
      by (rule round_float_le_grid) (simp add: M_def)
    also have "\<dots> \<le> 2 powi (ilog2 y)"
      using M by (simp add: power_int_increasing)
    also have "\<dots> = of_int (2 ^ (p - 1)) * 2 powi ?ey"
      using p by (simp add: ey power_int_diff power_int_add flip: power_int_of_nat)
    also have "\<dots> \<le> round_float p emin y"
    proof (rule round_float_ge_grid)
      have "of_int (2 ^ (p - 1)) * 2 powi ?ey = (2::rat) powi (ilog2 y)"
        using p by (simp add: ey power_int_diff power_int_add flip: power_int_of_nat)
      then show "of_int (2 ^ (p - 1)) * 2 powi ?ey \<le> y"
        using ilog2_bounds(1) [OF y0] by simp
    qed simp
    finally show ?thesis .
  qed
qed

subsection \<open>The two formats\<close>

lemma fl32_of_int: "\<bar>m\<bar> < 2 ^ 24 \<Longrightarrow> fl32 (of_int m) = of_int m"
  using round_float_exact [of m 24 "- 149" 0] by (simp add: fl32_def)

lemma fl64_of_int: "\<bar>m\<bar> < 2 ^ 53 \<Longrightarrow> fl64 (of_int m) = of_int m"
  using round_float_exact [of m 53 "- 1074" 0] by (simp add: fl64_def)

lemma fl32_0: "fl32 0 = 0"
  by (simp add: fl32_def round_float_0)

lemma fl32_1: "fl32 1 = 1"
  using fl32_of_int [of 1] by simp

lemma fl64_1: "fl64 1 = 1"
  using fl64_of_int [of 1] by simp

lemma fl32_mono: "0 \<le> x \<Longrightarrow> x \<le> y \<Longrightarrow> fl32 x \<le> fl32 y"
  by (simp add: fl32_def round_float_mono)

lemma fl64_mono: "0 \<le> x \<Longrightarrow> x \<le> y \<Longrightarrow> fl64 x \<le> fl64 y"
  by (simp add: fl64_def round_float_mono)

lemma fl32_nonneg: "0 \<le> x \<Longrightarrow> 0 \<le> fl32 x"
  by (simp add: fl32_def round_float_nonneg)

lemma fl64_nonneg: "0 \<le> x \<Longrightarrow> 0 \<le> fl64 x"
  by (simp add: fl64_def round_float_nonneg)

lemma float_of_int_small: "\<bar>i\<bar> < 2 ^ 24 \<Longrightarrow> float_of_int i = of_int i"
  by (simp only: float_of_int_def fl32_of_int)

lemma double_of_int_small: "\<bar>i\<bar> < 2 ^ 53 \<Longrightarrow> double_of_int i = of_int i"
  by (simp only: double_of_int_def fl64_of_int)

lemma trunc_toward_zero_unit: "0 \<le> x \<Longrightarrow> x < 1 \<Longrightarrow> trunc_toward_zero x = 0"
  by (simp add: trunc_toward_zero_def floor_eq_iff)

lemma trunc_toward_zero_of_int: "trunc_toward_zero (of_int k) = k"
  by (simp add: trunc_toward_zero_def)

lemma fl32_below_one:
  assumes "0 \<le> x" "x \<le> 65535 / 65536"
  shows "fl32 x < 1"
proof (cases "x = 0")
  case True
  then show ?thesis by (simp add: fl32_0)
next
  case False
  have "\<bar>x\<bar> < 2 powi 0" using assms by simp
  then have "float_exponent 24 (- 149) x \<le> 0 - int 24"
    using False by (intro float_exponent_le) simp_all
  then have e: "float_exponent 24 (- 149) x \<le> - 16" by simp
  have "x \<le> of_int 65535 * 2 powi (- 16)" using assms(2) by (simp add: power_int_minus_divide)
  then have "round_float 24 (- 149) x \<le> of_int 65535 * 2 powi (- 16)"
    using e by (rule round_float_le_grid)
  then show ?thesis by (simp add: fl32_def power_int_minus_divide)
qed


section \<open>The equality operator and the outlier branches\<close>

lemma rgb_operator_eq_live: "this < length mem \<Longrightarrow> \<not> rgb_operator_eq mem this arg"
  by (simp add: rgb_operator_eq_def)

lemma sentinel_test_min: "\<not> rgb_operator_eq (objects g) addr_minOutlierColor c"
  by (rule rgb_operator_eq_live) (simp add: objects_def addr_minOutlierColor_def)

lemma sentinel_test_max: "\<not> rgb_operator_eq (objects g) addr_maxOutlierColor c"
  by (rule rgb_operator_eq_live) (simp add: objects_def addr_maxOutlierColor_def)

lemma getRgb_below: "val < m_min g \<Longrightarrow> getRgb g val = Inr (m_minOutlierColor g)"
  by (simp add: getRgb_def sentinel_test_min)

lemma getRgb_above:
  "\<not> val < m_min g \<Longrightarrow> m_max g < val \<Longrightarrow> getRgb g val = Inr (m_maxOutlierColor g)"
  by (simp add: getRgb_def sentinel_test_max)

lemma getRgb_inside:
  "\<not> val < m_min g \<Longrightarrow> \<not> m_max g < val \<Longrightarrow> getRgb g val = getRgb_in_range g val"
  by (simp add: getRgb_def)

text \<open>
  C3. \<open>a == b\<close> is false for every receiver \<open>a\<close> that is a live object and every
  argument \<open>b\<close>, also when \<open>b\<close> is a copy of \<open>a\<close> itself and when \<open>b\<close> is
  \<open>INVALID_COLOR\<close>: the parameter is a new object, so its address is not the receiver's.
  Hence neither sentinel test of \<open>getRgb\<close> succeeds, and an outlier value gets the stored
  outlier color whatever it is.
\<close>

theorem operator_eq_always_false:
  "(this < length mem \<longrightarrow>
      \<not> rgb_operator_eq mem this arg
      \<and> \<not> rgb_operator_eq mem this (mem ! this)
      \<and> \<not> rgb_operator_eq mem this INVALID_COLOR)
   \<and> \<not> rgb_operator_eq (objects g) addr_minOutlierColor INVALID_COLOR
   \<and> \<not> rgb_operator_eq (objects g) addr_maxOutlierColor INVALID_COLOR
   \<and> (val < m_min g \<longrightarrow> getRgb g val = Inr (m_minOutlierColor g))
   \<and> (\<not> val < m_min g \<and> m_max g < val \<longrightarrow> getRgb g val = Inr (m_maxOutlierColor g))"
  by (simp add: rgb_operator_eq_live sentinel_test_min sentinel_test_max getRgb_below
      getRgb_above)

theorem operator_eq_always_false_witness:
  "(0::nat) < length [black]
   \<and> \<not> rgb_operator_eq [black] 0 black
   \<and> (3::16 word) < m_min (initialize_default raw_object 10 20 [white, pure_red])
   \<and> getRgb (initialize_default raw_object 10 20 [white, pure_red]) 3 = Inr black
   \<and> \<not> (25::16 word) < m_min (initialize_default raw_object 10 20 [white, pure_red])
   \<and> m_max (initialize_default raw_object 10 20 [white, pure_red]) < (25::16 word)
   \<and> getRgb (initialize_default raw_object 10 20 [white, pure_red]) 25 = Inr black"
  using operator_eq_always_false [of 0 "[black]" black
      "initialize_default raw_object 10 20 [white, pure_red]" 3]
    operator_eq_always_false [of 0 "[black]" black
      "initialize_default raw_object 10 20 [white, pure_red]" 25]
  by (simp add: initialize_default_def initialize_def INVALID_COLOR_def)

text \<open>
  C2. With the outlier colors left at their default, a value below \<open>min\<close> gets
  \<open>INVALID_COLOR\<close>, not the first stop, and a value above \<open>max\<close> gets \<open>INVALID_COLOR\<close>,
  not the last stop: for the gradient over 10..20 with the stops white and red,
  \<open>getRgb(5)\<close> and \<open>getRgb(25)\<close> are both black.
\<close>

theorem default_outlier_is_sentinel:
  "getRgb (initialize_default raw_object 10 20 [white, pure_red]) 5 = Inr black
   \<and> vector_front [white, pure_red] = Inr white
   \<and> getRgb (initialize_default raw_object 10 20 [white, pure_red]) 25 = Inr black
   \<and> vector_back [white, pure_red] = Inr pure_red"
  by (simp add: getRgb_below getRgb_above initialize_default_def initialize_def
      INVALID_COLOR_def vector_front_def vector_back_def)

text \<open>
  C5. After \<open>initialize\<close> with the outlier colors \<open>C\<close> and \<open>D\<close>, \<open>getRgb\<close> returns \<open>C\<close>
  for every value below \<open>min\<close> and, the range being a range (\<open>min \<le> max\<close>), \<open>D\<close> for
  every value above \<open>max\<close>.
\<close>

theorem explicit_outlier_colors:
  "(val < min_v \<longrightarrow> getRgb (initialize g min_v max_v stops C D) val = Inr C)
   \<and> (min_v \<le> max_v \<and> max_v < val \<longrightarrow> getRgb (initialize g min_v max_v stops C D) val = Inr D)"
  by (auto simp add: getRgb_below getRgb_above initialize_def)

theorem explicit_outlier_colors_witness:
  "(3::16 word) < 10
   \<and> getRgb (initialize raw_object 10 20 [white, black] pure_red white) 3 = Inr pure_red
   \<and> (10::16 word) \<le> 20 \<and> (20::16 word) < 25
   \<and> getRgb (initialize raw_object 10 20 [white, black] pure_red white) 25 = Inr white"
  using explicit_outlier_colors [of 3 10 raw_object 20 "[white, black]" pure_red white]
    explicit_outlier_colors [of 25 10 raw_object 20 "[white, black]" pure_red white]
  by simp

section \<open>Frame and construction\<close>

lemma run_read_member: "run_state (read_member field) g = (field g, g)"
  by (simp add: read_member_def)

lemma run_write_member:
  "run_state (write_member field_update x) g = ((), field_update (\<lambda>_. x) g)"
  by (simp add: write_member_def)

lemma run_operator_eq_member:
  "run_state (operator_eq_member this arg) g = (rgb_operator_eq (objects g) this arg, g)"
  by (simp add: operator_eq_member_def)

lemma run_interpolate_member:
  "run_state (interpolate_member c1 c2 t) g = (interpolate c1 c2 t, g)"
  by (simp add: interpolate_member_def)

lemma run_initialize_member:
  "run_state (initialize_member min_v max_v stops c d) g = ((), initialize g min_v max_v stops c d)"
  by (simp add: initialize_member_def run_write_member initialize_def)

lemma run_getRgb_member: "run_state (getRgb_member val) g = (getRgb g val, g)"
proof -
  have in_range: "getRgb_in_range g val =
      (case float_div (float_of_int (uint (m_max g - m_min g)))
              (fl32 (of_nat (size_minus_1 (m_stops g)))) of
         Inl e \<Rightarrow> Inl e
       | Inr step \<Rightarrow>
      (case float_div (float_of_int (uint (val - m_min g))) step of
         Inl e \<Rightarrow> Inl e
       | Inr q \<Rightarrow>
      (case float_to_int q of
         Inl e \<Rightarrow> Inl e
       | Inr bin \<Rightarrow>
      (case float_div (fl32 (float_of_int (uint (val - m_min g)) - fl32 (float_of_int bin * step))) step of
         Inl e \<Rightarrow> Inl e
       | Inr normalized_v \<Rightarrow>
      (case vector_at (m_stops g) bin of
         Inl e \<Rightarrow> Inl e
       | Inr c1 \<Rightarrow>
      (case int_add bin 1 of
         Inl e \<Rightarrow> Inl e
       | Inr bin1 \<Rightarrow>
      (case vector_at (m_stops g) bin1 of
         Inl e \<Rightarrow> Inl e
       | Inr c2 \<Rightarrow> interpolate c1 c2 normalized_v)))))))"
    by (simp add: getRgb_in_range_def find_bin_def step_of_def split: sum.splits)
  show ?thesis
    unfolding getRgb_member_def getRgb_def in_range
    by (simp add: run_read_member run_operator_eq_member run_interpolate_member Let_def
        split: sum.splits)
qed

text \<open>
  C9. Running \<open>getRgb\<close> on an object leaves the object as it was, so \<open>m_min\<close>, \<open>m_max\<close>,
  \<open>m_stops\<close> and both outlier colors are unchanged; its result is the function
  \<open>getRgb\<close> of the object and the value; and a second call with the same value on the
  object the first call left returns the same result and leaves the same object.
\<close>

theorem getRgb_member_frame:
  "snd (run_state (getRgb_member val) g) = g
   \<and> m_min (snd (run_state (getRgb_member val) g)) = m_min g
   \<and> m_max (snd (run_state (getRgb_member val) g)) = m_max g
   \<and> m_stops (snd (run_state (getRgb_member val) g)) = m_stops g
   \<and> m_minOutlierColor (snd (run_state (getRgb_member val) g)) = m_minOutlierColor g
   \<and> m_maxOutlierColor (snd (run_state (getRgb_member val) g)) = m_maxOutlierColor g
   \<and> fst (run_state (getRgb_member val) g) = getRgb g val
   \<and> run_state (getRgb_member val) (snd (run_state (getRgb_member val) g))
       = run_state (getRgb_member val) g"
  by (simp add: run_getRgb_member)


lemma step_of_fields:
  "m_min g = m_min h \<Longrightarrow> m_max g = m_max h \<Longrightarrow> m_stops g = m_stops h
   \<Longrightarrow> step_of g = step_of h"
  by (simp add: step_of_def)

lemma find_bin_fields:
  "m_min g = m_min h \<Longrightarrow> m_max g = m_max h \<Longrightarrow> m_stops g = m_stops h
   \<Longrightarrow> find_bin g val = find_bin h val"
  by (simp add: find_bin_def step_of_fields [of g h])

lemma getRgb_in_range_fields:
  "m_min g = m_min h \<Longrightarrow> m_max g = m_max h \<Longrightarrow> m_stops g = m_stops h
   \<Longrightarrow> getRgb_in_range g val = getRgb_in_range h val"
  by (simp add: getRgb_in_range_def find_bin_fields [of g h] step_of_fields [of g h]
      cong: sum.case_cong)

lemma getRgb_fields:
  assumes "m_min g = m_min h" "m_max g = m_max h" "m_stops g = m_stops h"
    "m_minOutlierColor g = m_minOutlierColor h" "m_maxOutlierColor g = m_maxOutlierColor h"
  shows "getRgb g val = getRgb h val"
proof -
  have "getRgb_in_range g val = getRgb_in_range h val"
    using assms by (intro getRgb_in_range_fields) simp_all
  then show ?thesis
    using assms by (simp add: getRgb_def sentinel_test_min sentinel_test_max)
qed

text \<open>
  C10. The constructor with parameters and the default constructor followed by
  \<open>initialize\<close> with the same parameters give objects on which \<open>getRgb\<close> returns the same
  for every value, whatever the indeterminate fields of the two objects held.
\<close>

theorem constructor_is_default_then_initialize:
  "getRgb (Gradient_init junk1 min_v max_v stops minOutlierColor maxOutlierColor) val
   = getRgb (initialize (Gradient_default junk2) min_v max_v stops minOutlierColor
       maxOutlierColor) val"
  by (rule getRgb_fields) (simp_all add: Gradient_init_def Gradient_default_def initialize_def)

section \<open>Gradients with two stops\<close>

text \<open>The range and the offset of an in-range value, as integers.\<close>

lemma range_pos:
  fixes lo hi :: "16 word"
  assumes "lo < hi"
  shows "0 < uint (hi - lo)" and "uint (hi - lo) < 2 ^ 16"
proof -
  have "lo \<le> hi" using assms by simp
  then have 1: "uint (hi - lo) = uint hi - uint lo" by (simp add: uint_minus_simple_alt)
  show "0 < uint (hi - lo)" using assms by (simp add: 1 word_less_alt)
  show "uint (hi - lo) < 2 ^ 16" using uint_lt2p [of "hi - lo"] by simp
qed

lemma offset_bounds:
  fixes lo hi val :: "16 word"
  assumes "\<not> val < lo" "\<not> hi < val"
  shows "0 \<le> uint (val - lo)" and "uint (val - lo) \<le> uint (hi - lo)"
    and "uint (val - lo) = uint (hi - lo) \<longleftrightarrow> val = hi"
    and "uint (val - lo) = 0 \<longleftrightarrow> val = lo"
proof -
  have le: "lo \<le> val" "val \<le> hi" using assms by simp_all
  then have "lo \<le> hi" by simp
  have 1: "uint (val - lo) = uint val - uint lo" using le by (simp add: uint_minus_simple_alt)
  have 2: "uint (hi - lo) = uint hi - uint lo" using \<open>lo \<le> hi\<close> by (simp add: uint_minus_simple_alt)
  show "0 \<le> uint (val - lo)" by simp
  show "uint (val - lo) \<le> uint (hi - lo)" using le by (simp add: 1 2 word_le_def)
  show "uint (val - lo) = uint (hi - lo) \<longleftrightarrow> val = hi" by (simp add: 1 2 word_uint_eq_iff)
  show "uint (val - lo) = 0 \<longleftrightarrow> val = lo" by (simp add: 1 word_uint_eq_iff)
qed

lemma step_of_two_stops:
  assumes "m_stops g = [A, B]" and "uint (m_max g - m_min g) = r" and "0 < r" and "r < 2 ^ 16"
  shows "step_of g = Inr (of_int r)"
proof -
  have "\<bar>r\<bar> < 2 ^ 24" using assms(3,4) by simp
  then show ?thesis
    using assms(3)
    by (simp add: step_of_def assms(1,2) size_minus_1_def fl32_1 float_div_def
        float_of_int_small fl32_of_int)
qed

lemma float_to_int_small: "- (2 ^ 31) \<le> k \<Longrightarrow> k < 2 ^ 31 \<Longrightarrow> float_to_int (of_int k) = Inr k"
  by (simp add: float_to_int_def trunc_toward_zero_of_int)

lemma find_bin_two_stops:
  assumes "m_stops g = [A, B]" and "uint (m_max g - m_min g) = r" and "0 < r" and "r < 2 ^ 16"
    and "uint (val - m_min g) = v" and "0 \<le> v" and "v \<le> r"
  shows "find_bin g val = float_to_int (fl32 (of_int v / of_int r))"
proof -
  have "\<bar>v\<bar> < 2 ^ 24" using assms(4,6,7) by simp
  then show ?thesis
    using assms(3)
    by (simp add: find_bin_def step_of_two_stops [OF assms(1-4)] assms(5) float_div_def
        float_of_int_small)
qed

lemma getRgb_in_range_two_stops:
  assumes "m_stops g = [A, B]" and "uint (m_max g - m_min g) = r" and "0 < r" and "r < 2 ^ 16"
    and "uint (val - m_min g) = v" and "0 \<le> v" and "v \<le> r"
    and "find_bin g val = Inr 0"
  shows "getRgb_in_range g val = interpolate A B (fl32 (of_int v / of_int r))"
proof -
  have "\<bar>v\<bar> < 2 ^ 24" using assms(4,6,7) by simp
  then show ?thesis
    using assms(3)
    by (simp add: getRgb_in_range_def step_of_two_stops [OF assms(1-4)] assms(1,5,8)
        float_div_def float_of_int_small fl32_0 fl32_of_int vector_at_def int_add_def)
qed

lemma getRgb_two_stops_min:
  assumes "m_stops g = [A, B]" "m_min g < m_max g"
  shows "getRgb g (m_min g) = Inr A"
proof -
  define r where "r = uint (m_max g - m_min g)"
  have r: "uint (m_max g - m_min g) = r" "0 < r" "r < 2 ^ 16"
    using range_pos [OF assms(2)] by (simp_all add: r_def)
  have v: "uint (m_min g - m_min g) = 0" "(0::int) \<le> 0" "0 \<le> r" using r by simp_all
  have bin: "find_bin g (m_min g) = Inr 0"
    using float_to_int_small [of 0]
    by (simp add: find_bin_two_stops [OF assms(1) r v] fl32_0)
  have "getRgb_in_range g (m_min g) = Inr A"
    by (simp add: getRgb_in_range_two_stops [OF assms(1) r v bin] fl32_0 interpolate_def)
  moreover have "\<not> m_max g < m_min g" using assms(2) by (simp add: not_less less_imp_le)
  ultimately show ?thesis by (simp add: getRgb_inside)
qed

lemma getRgb_two_stops_max:
  assumes "m_stops g = [A, B]" "m_min g < m_max g"
  shows "find_bin g (m_max g) = Inr 1" and "getRgb g (m_max g) = Inl OutOfBounds"
proof -
  define r where "r = uint (m_max g - m_min g)"
  have r: "uint (m_max g - m_min g) = r" "0 < r" "r < 2 ^ 16"
    using range_pos [OF assms(2)] by (simp_all add: r_def)
  have v: "uint (m_max g - m_min g) = r" "0 \<le> r" "r \<le> r" using r by simp_all
  have r24: "\<bar>r\<bar> < 2 ^ 24" using r by simp
  show bin: "find_bin g (m_max g) = Inr 1"
    using float_to_int_small [of 1] r(2)
    by (simp add: find_bin_two_stops [OF assms(1) r v] fl32_1)
  have "getRgb_in_range g (m_max g) = Inl OutOfBounds"
    using r(2) r24
    by (simp add: getRgb_in_range_def step_of_two_stops [OF assms(1) r] bin r(1) assms(1)
        float_div_def float_of_int_small fl32_0 fl32_1 fl32_of_int vector_at_def int_add_def)
  moreover have "\<not> m_max g < m_min g" using assms(2) by (simp add: not_less less_imp_le)
  ultimately show "getRgb g (m_max g) = Inl OutOfBounds" by (simp add: getRgb_inside)
qed

lemma initialize_fields:
  "m_min (initialize g min_v max_v stops c d) = min_v"
  "m_max (initialize g min_v max_v stops c d) = max_v"
  "m_stops (initialize g min_v max_v stops c d) = stops"
  "m_minOutlierColor (initialize g min_v max_v stops c d) = c"
  "m_maxOutlierColor (initialize g min_v max_v stops c d) = d"
  by (simp_all add: initialize_def)

text \<open>
  C1. For the gradient over 0..100 with the two stops white and red, \<open>getRgb(100)\<close>
  computes \<open>bin = 1\<close>, which is \<open>stops.length - 1\<close>, and reads \<open>m_stops[2]\<close>, one past
  the end of the vector: the bin index is not clamped to \<open>stops.length - 2\<close>.
\<close>

theorem top_edge_reads_past_the_end:
  "find_bin (initialize_default raw_object 0 100 [white, pure_red]) 100 = Inr 1
   \<and> vector_at [white, pure_red] (1 + 1) = Inl OutOfBounds
   \<and> getRgb (initialize_default raw_object 0 100 [white, pure_red]) 100 = Inl OutOfBounds"
  by code_simp

lemma vector_read_in_bounds: "vector_at xs i = Inr c \<Longrightarrow> vector_read past xs i = c"
  by (simp add: vector_at_def vector_read_def split: if_splits)

lemma getRgb_in_range_unchecked_agrees:
  "getRgb_in_range g val = Inr c \<Longrightarrow> getRgb_in_range_unchecked past g val = Inr c"
  by (auto simp add: getRgb_in_range_def getRgb_in_range_unchecked_def Let_def
      vector_read_in_bounds split: sum.splits)

lemma getRgb_unchecked_agrees:
  "getRgb g val = Inr c \<Longrightarrow> getRgb_unchecked past g val = Inr c"
  by (auto simp add: getRgb_def getRgb_unchecked_def getRgb_in_range_unchecked_agrees
      split: if_splits)

lemma getRgb_unchecked_two_stops_max:
  assumes "m_stops g = [A, B]" "m_min g < m_max g"
  shows "getRgb_unchecked past g (m_max g) = Inr B"
proof -
  define r where "r = uint (m_max g - m_min g)"
  have r: "uint (m_max g - m_min g) = r" "0 < r" "r < 2 ^ 16"
    using range_pos [OF assms(2)] by (simp_all add: r_def)
  have r24: "\<bar>r\<bar> < 2 ^ 24" using r by simp
  have bin: "find_bin g (m_max g) = Inr 1"
    using assms by (rule getRgb_two_stops_max(1))
  have "getRgb_in_range_unchecked past g (m_max g) = Inr B"
    using r(2) r24
    by (simp add: getRgb_in_range_unchecked_def step_of_two_stops [OF assms(1) r] bin r(1)
        assms(1) float_div_def float_of_int_small fl32_0 fl32_1 fl32_of_int vector_read_def
        int_add_def interpolate_def)
  moreover have "\<not> m_max g < m_min g" using assms(2) by (simp add: not_less less_imp_le)
  ultimately show ?thesis by (simp add: getRgb_unchecked_def)
qed

text \<open>
  C4. For every gradient with two stops \<open>[A, B]\<close> and \<open>min < max\<close>, \<open>getRgb(min)\<close>
  returns \<open>A\<close> and \<open>getRgb(max)\<close> returns \<open>B\<close>, both exactly. At \<open>min\<close> every read is
  inside the vector. At \<open>max\<close> the second argument of \<open>interpolate\<close> is read past the end
  of the vector (C1), and the result is \<open>B\<close> whatever that read yields: \<open>bin\<close> is 1,
  \<open>normalized_v\<close> is 0, and \<open>interpolate\<close> returns its first argument \<open>m_stops[1]\<close>.
\<close>

theorem two_stop_endpoints_exact:
  assumes "min_v < max_v"
  shows "getRgb (initialize g min_v max_v [A, B] c d) min_v = Inr A
     \<and> getRgb_unchecked past (initialize g min_v max_v [A, B] c d) min_v = Inr A
     \<and> getRgb_unchecked past (initialize g min_v max_v [A, B] c d) max_v = Inr B"
proof -
  let ?g = "initialize g min_v max_v [A, B] c d"
  have s: "m_stops ?g = [A, B]" and lt: "m_min ?g < m_max ?g"
    using assms by (simp_all add: initialize_fields)
  have "getRgb ?g (m_min ?g) = Inr A" using s lt by (rule getRgb_two_stops_min)
  then show ?thesis
    using getRgb_unchecked_agrees [of ?g "m_min ?g" A past]
      getRgb_unchecked_two_stops_max [OF s lt, of past]
    by (simp add: initialize_fields)
qed

theorem two_stop_endpoints_exact_witness:
  "(0::16 word) < 100
   \<and> getRgb (initialize raw_object 0 100 [white, pure_red] black black) 0 = Inr white
   \<and> getRgb_unchecked (\<lambda>i. stop_10_20_30) (initialize raw_object 0 100 [white, pure_red] black black) 0
       = Inr white
   \<and> getRgb_unchecked (\<lambda>i. stop_10_20_30) (initialize raw_object 0 100 [white, pure_red] black black) 100
       = Inr pure_red"
  using two_stop_endpoints_exact [of 0 100 raw_object white pure_red black black "\<lambda>i. stop_10_20_30"]
  by simp


section \<open>Interpolation\<close>

lemma fl64_abs_error:
  "\<bar>x\<bar> < 2 powi k \<Longrightarrow> - 1020 \<le> k \<Longrightarrow> \<bar>fl64 x - x\<bar> \<le> 2 powi (k - 54)"
  using round_float_abs_error [of x k "- 1074" 53] by (simp add: fl64_def)

lemma fl32_abs_error:
  "\<bar>x\<bar> < 2 powi k \<Longrightarrow> - 125 \<le> k \<Longrightarrow> \<bar>fl32 x - x\<bar> \<le> 2 powi (k - 25)"
  using round_float_abs_error [of x k "- 149" 24] by (simp add: fl32_def)

lemma machine_blend_error:
  fixes x y :: int and t :: rat
  assumes "0 \<le> x" "x \<le> 255" "0 \<le> y" "y \<le> 255" "0 < t" "t < 1"
  shows "\<bar>fl64 (fl64 (fl64 (1 - t) * of_int x) + fl32 (t * of_int y))
          - ((1 - t) * of_int x + t * of_int y)\<bar> < 1 / 65536"
    and "0 \<le> fl64 (fl64 (fl64 (1 - t) * of_int x) + fl32 (t * of_int y))"
proof -
  define X :: rat where "X = of_int x"
  define Y :: rat where "Y = of_int y"
  have X: "0 \<le> X" "X \<le> 255" and Y: "0 \<le> Y" "Y \<le> 255"
    using assms(1-4) by (simp_all add: X_def Y_def)
  define u1 where "u1 = fl64 (1 - t)"
  define u2 where "u2 = fl64 (u1 * X)"
  define u3 where "u3 = fl32 (t * Y)"
  define u4 where "u4 = fl64 (u2 + u3)"
  have e1: "\<bar>u1 - (1 - t)\<bar> \<le> 2 powi (- 54)"
    using fl64_abs_error [of "1 - t" 0] assms(5,6) by (simp add: u1_def)
  have u1: "0 \<le> u1" "u1 \<le> 1"
    using fl64_nonneg [of "1 - t"] fl64_mono [of "1 - t" 1] assms(5,6)
    by (simp_all add: u1_def fl64_1)
  have p1: "0 \<le> u1 * X" "u1 * X \<le> 255"
    using mult_nonneg_nonneg [OF u1(1) X(1)] mult_mono [OF u1(2) X(2) _ X(1)] by simp_all
  have e2: "\<bar>u2 - u1 * X\<bar> \<le> 2 powi (- 46)"
    using fl64_abs_error [of "u1 * X" 8] p1 by (simp add: u2_def)
  have u2: "0 \<le> u2" "u2 \<le> 255"
    using fl64_nonneg [OF p1(1)] fl64_mono [OF p1] fl64_of_int [of 255]
    by (simp_all add: u2_def)
  have p3: "0 \<le> t * Y" "t * Y \<le> 255"
    using mult_nonneg_nonneg [of t Y] mult_mono [of t 1 Y 255] assms(5,6) Y by simp_all
  have e3: "\<bar>u3 - t * Y\<bar> \<le> 2 powi (- 17)"
    using fl32_abs_error [of "t * Y" 8] p3 by (simp add: u3_def)
  have u3: "0 \<le> u3" "u3 \<le> 255"
    using fl32_nonneg [OF p3(1)] fl32_mono [OF p3] fl32_of_int [of 255]
    by (simp_all add: u3_def)
  have e4: "\<bar>u4 - (u2 + u3)\<bar> \<le> 2 powi (- 45)"
    using fl64_abs_error [of "u2 + u3" 9] u2 u3 by (simp add: u4_def)
  have "\<bar>u1 * X - (1 - t) * X\<bar> = \<bar>u1 - (1 - t)\<bar> * X"
    using X(1) by (simp add: abs_mult flip: left_diff_distrib)
  also have "\<dots> \<le> 2 powi (- 54) * 255"
    using e1 X by (intro mult_mono) simp_all
  finally have d1: "\<bar>u1 * X - (1 - t) * X\<bar> \<le> 2 powi (- 54) * 255" .
  have "\<bar>u4 - ((1 - t) * X + t * Y)\<bar>
      \<le> 2 powi (- 45) + 2 powi (- 46) + 2 powi (- 54) * 255 + 2 powi (- 17)"
    using e4 e2 d1 e3 by linarith
  also have "\<dots> < 1 / 65536"
    by (simp add: power_int_minus_divide)
  finally show "\<bar>fl64 (fl64 (fl64 (1 - t) * of_int x) + fl32 (t * of_int y))
          - ((1 - t) * of_int x + t * of_int y)\<bar> < 1 / 65536"
    by (simp add: u4_def u3_def u2_def u1_def X_def Y_def)
  have "0 \<le> u4" using fl64_nonneg [of "u2 + u3"] u2 u3 by (simp add: u4_def)
  then show "0 \<le> fl64 (fl64 (fl64 (1 - t) * of_int x) + fl32 (t * of_int y))"
    by (simp add: u4_def u3_def u2_def u1_def X_def Y_def)
qed

lemma uint8_bounds: "0 \<le> uint (a :: 8 word)" "uint (a :: 8 word) \<le> 255"
  using uint_lt2p [of a] by simp_all

lemma blend_unfold:
  "blend a b t = fl64 (fl64 (fl64 (1 - t) * of_int (uint a)) + fl32 (t * of_int (uint b)))"
proof -
  have "\<bar>uint a\<bar> < 2 ^ 53" "\<bar>uint b\<bar> < 2 ^ 24"
    using uint8_bounds [of a] uint8_bounds [of b] by simp_all
  then show ?thesis
    by (simp only: blend_def double_of_int_small float_of_int_small)
qed

lemma blend_error:
  assumes "0 < t" "t < 1"
  shows "\<bar>blend a b t - exact_blend a b t\<bar> < 1 / 65536" and "0 \<le> blend a b t"
  unfolding blend_unfold exact_blend_def
  using machine_blend_error [OF uint8_bounds [of a] uint8_bounds [of b] assms] by blast+

lemma exact_blend_bounds:
  assumes "0 < t" "t < 1"
  shows "0 \<le> exact_blend a b t" and "exact_blend a b t \<le> 255"
proof -
  define x y where "x = uint a" and "y = uint b"
  define X :: rat where "X = of_int x"
  define Y :: rat where "Y = of_int y"
  have "0 \<le> x" "x \<le> 255" "0 \<le> y" "y \<le> 255"
    using uint8_bounds [of a] uint8_bounds [of b] by (simp_all add: x_def y_def)
  then have X: "0 \<le> X" "X \<le> 255" and Y: "0 \<le> Y" "Y \<le> 255"
    by (simp_all add: X_def Y_def)
  have eq: "exact_blend a b t = (1 - t) * X + t * Y"
    unfolding exact_blend_def X_def Y_def x_def y_def ..
  show "0 \<le> exact_blend a b t"
    unfolding eq using assms X Y by (intro add_nonneg_nonneg mult_nonneg_nonneg) simp_all
  have "(1 - t) * X \<le> (1 - t) * 255"
    using assms X by (intro mult_left_mono) simp_all
  moreover have "t * Y \<le> t * 255"
    using assms Y by (intro mult_left_mono) simp_all
  moreover have "(1 - t) * 255 + t * 255 = 255"
    by (simp add: algebra_simps)
  ultimately show "exact_blend a b t \<le> 255"
    unfolding eq by linarith
qed

lemma interpolate_channel_value:
  assumes "0 < t" "t < 1"
  shows "interpolate_channel a b t = Inr (word_of_int (trunc_toward_zero (blend a b t)))"
    and "0 \<le> trunc_toward_zero (blend a b t)" and "trunc_toward_zero (blend a b t) \<le> 255"
proof -
  note b = blend_error [OF assms, of a b] and e = exact_blend_bounds [OF assms, of a b]
  have "blend a b t < 256" using b(1) e(2) by linarith
  then have "\<lfloor>blend a b t\<rfloor> < 256" by (simp add: floor_less_iff)
  moreover have "0 \<le> \<lfloor>blend a b t\<rfloor>" using b(2) by simp
  moreover have tr: "trunc_toward_zero (blend a b t) = \<lfloor>blend a b t\<rfloor>"
    using b(2) by (simp add: trunc_toward_zero_def)
  ultimately show "0 \<le> trunc_toward_zero (blend a b t)"
    and "trunc_toward_zero (blend a b t) \<le> 255"
    and "interpolate_channel a b t = Inr (word_of_int (trunc_toward_zero (blend a b t)))"
    by (simp_all add: interpolate_channel_def double_to_uint8_def)
qed

lemma interpolate_channel_same:
  assumes "0 < t" "t < 1"
  shows "interpolate_channel a a t = Inr a \<or> interpolate_channel a a t = Inr (a - 1)"
proof -
  define x where "x = uint a"
  have ex: "exact_blend a a t = of_int x"
    unfolding exact_blend_def x_def by (simp add: algebra_simps)
  note b = blend_error [OF assms, of a a]
  have b1: "\<bar>blend a a t - of_int x\<bar> < 1 / 65536" using b(1) unfolding ex .
  have "of_int x - 1 \<le> blend a a t" and "blend a a t < of_int x + 1"
    using b1 by linarith+
  then have lo: "of_int (x - 1) \<le> blend a a t" and hi: "blend a a t < of_int (x + 1)"
    by simp_all
  have "x - 1 \<le> \<lfloor>blend a a t\<rfloor>" using lo by (simp only: le_floor_iff)
  moreover have "\<lfloor>blend a a t\<rfloor> < x + 1" using hi by (simp only: floor_less_iff)
  ultimately have "\<lfloor>blend a a t\<rfloor> = x \<or> \<lfloor>blend a a t\<rfloor> = x - 1" by linarith
  moreover have "trunc_toward_zero (blend a a t) = \<lfloor>blend a a t\<rfloor>"
    using b(2) by (simp add: trunc_toward_zero_def)
  moreover have "word_of_int x = a" "word_of_int (x - 1) = a - 1"
    by (simp_all add: x_def)
  ultimately show ?thesis
    unfolding interpolate_channel_value(1) [OF assms] by auto
qed

text \<open>
  C7 (as amended). \<open>interpolate\<close> returns \<open>c1\<close> for \<open>t \<le> 0\<close> and \<open>c2\<close> for \<open>t \<ge> 1\<close>.
  For \<open>0 < t < 1\<close> every channel is the truncation toward zero of the blend as the machine
  computes it (\<open>1 - t\<close> and its product with the first channel in double precision, the
  product of \<open>t\<close> and the second channel in single precision, the sum in double precision);
  that value lies in the range of a channel, and it differs from the exact value of
  \<open>(1 - t) * c1.channel + t * c2.channel\<close> by less than \<open>1 / 65536\<close>. The witness has
  \<open>t = 1 / 2\<close> between black and white: the exact blend is 127.5 and the channel is 127.
\<close>

theorem interpolate_machine_blend:
  "(t \<le> 0 \<longrightarrow> interpolate c1 c2 t = Inr c1)
   \<and> (1 \<le> t \<longrightarrow> interpolate c1 c2 t = Inr c2)
   \<and> (0 < t \<and> t < 1 \<longrightarrow>
        interpolate c1 c2 t =
          Inr \<lparr>red = word_of_int (trunc_toward_zero (blend (red c1) (red c2) t)),
               green = word_of_int (trunc_toward_zero (blend (green c1) (green c2) t)),
               blue = word_of_int (trunc_toward_zero (blend (blue c1) (blue c2) t))\<rparr>
        \<and> 0 \<le> trunc_toward_zero (blend a b t)
        \<and> trunc_toward_zero (blend a b t) \<le> 255
        \<and> \<bar>blend a b t - exact_blend a b t\<bar> < 1 / 65536)"
proof -
  have "interpolate c1 c2 t =
          Inr \<lparr>red = word_of_int (trunc_toward_zero (blend (red c1) (red c2) t)),
               green = word_of_int (trunc_toward_zero (blend (green c1) (green c2) t)),
               blue = word_of_int (trunc_toward_zero (blend (blue c1) (blue c2) t))\<rparr>"
    if "0 < t" "t < 1"
    using that by (simp add: interpolate_def interpolate_channel_value(1) [OF that])
  then show ?thesis
    using interpolate_channel_value(2,3) [of t a b] blend_error(1) [of t a b]
    by (simp add: interpolate_def)
qed

theorem interpolate_machine_blend_witness:
  "(0::rat) \<le> 0 \<and> interpolate black white 0 = Inr black
   \<and> (1::rat) \<le> 1 \<and> interpolate black white 1 = Inr white
   \<and> (0::rat) < 1 / 2 \<and> (1 / 2 :: rat) < 1
   \<and> interpolate black white (1 / 2) = Inr \<lparr>red = 127, green = 127, blue = 127\<rparr>
   \<and> exact_blend 0 255 (1 / 2) = 255 / 2
   \<and> \<bar>blend 0 255 (1 / 2) - exact_blend 0 255 (1 / 2)\<bar> < 1 / 65536"
proof -
  have e: "trunc_toward_zero (blend 0 255 (1 / 2)) = 127"
    by code_simp
  have x: "exact_blend 0 255 (1 / 2) = 255 / 2"
    by (simp add: exact_blend_def)
  show ?thesis
    using interpolate_machine_blend [of 0 black white 0 255]
      interpolate_machine_blend [of 1 black white 0 255]
      interpolate_machine_blend [of "1 / 2" black white 0 255]
    by (simp add: e x)
qed

text \<open>
  The sentence of the specification read with exact arithmetic fails: for \<open>t\<close> the
  \<open>float\<close> nearest to 0.2 and both colors \<open>{10, 20, 30}\<close>, the exact blend of every
  channel is the channel itself, and \<open>interpolate\<close> returns \<open>{9, 19, 29}\<close>.
\<close>

theorem interpolate_not_exact_blend:
  "fl32 (1 / 5) = 13421773 / 67108864
   \<and> interpolate stop_10_20_30 stop_10_20_30 (fl32 (1 / 5)) = Inr \<lparr>red = 9, green = 19, blue = 29\<rparr>
   \<and> spec_interpolate stop_10_20_30 stop_10_20_30 (fl32 (1 / 5)) = stop_10_20_30"
  by code_simp

section \<open>Two identical stops\<close>

lemma getRgb_identical_stops:
  assumes s: "m_stops g = [T, T]" and lt: "m_min g < m_max g"
    and lo: "\<not> val < m_min g" and hi: "val < m_max g"
  shows "\<exists>r. getRgb g val = Inr r
      \<and> (red r = red T \<or> red r = red T - 1)
      \<and> (green r = green T \<or> green r = green T - 1)
      \<and> (blue r = blue T \<or> blue r = blue T - 1)"
proof -
  define r where "r = uint (m_max g - m_min g)"
  define v where "v = uint (val - m_min g)"
  have r: "uint (m_max g - m_min g) = r" "0 < r" "r < 2 ^ 16"
    using range_pos [OF lt] by (simp_all add: r_def)
  have nhi: "\<not> m_max g < val" using hi by (simp add: not_less less_imp_le)
  have "v \<noteq> r" using offset_bounds(3) [OF lo nhi] hi by (simp add: v_def r_def)
  then have v: "uint (val - m_min g) = v" "0 \<le> v" "v \<le> r" and vr: "v < r"
    using offset_bounds(1,2) [OF lo nhi] by (simp_all add: v_def r_def)
  define q where "q = fl32 (of_int v / of_int r)"
  have "r < 65536" using r(3) by simp
  then have "v * 65536 \<le> 65535 * r" using vr by linarith
  then have "(of_int (v * 65536) :: rat) \<le> of_int (65535 * r)" by (simp only: of_int_le_iff)
  then have "(of_int v :: rat) / of_int r \<le> 65535 / 65536"
    using r(2) by (simp add: field_simps)
  moreover have "(0::rat) \<le> of_int v / of_int r" using v(2) r(2) by simp
  ultimately have q: "0 \<le> q" "q < 1"
    by (simp_all add: q_def fl32_nonneg fl32_below_one)
  have bin: "find_bin g val = Inr 0"
    using q by (simp add: find_bin_two_stops [OF s r v] q_def [symmetric] float_to_int_def
        trunc_toward_zero_unit)
  have in_range: "getRgb_in_range g val = interpolate T T q"
    by (simp add: getRgb_in_range_two_stops [OF s r v bin] q_def)
  have "\<exists>r. interpolate T T q = Inr r
      \<and> (red r = red T \<or> red r = red T - 1)
      \<and> (green r = green T \<or> green r = green T - 1)
      \<and> (blue r = blue T \<or> blue r = blue T - 1)"
  proof (cases "q \<le> 0")
    case True
    then show ?thesis by (simp add: interpolate_def)
  next
    case False
    then have q0: "0 < q" by simp
    obtain rr where rr: "interpolate_channel (red T) (red T) q = Inr rr"
        "rr = red T \<or> rr = red T - 1"
      using interpolate_channel_same [OF q0 q(2), of "red T"] by blast
    obtain gg where gg: "interpolate_channel (green T) (green T) q = Inr gg"
        "gg = green T \<or> gg = green T - 1"
      using interpolate_channel_same [OF q0 q(2), of "green T"] by blast
    obtain bb where bb: "interpolate_channel (blue T) (blue T) q = Inr bb"
        "bb = blue T \<or> bb = blue T - 1"
      using interpolate_channel_same [OF q0 q(2), of "blue T"] by blast
    have "interpolate T T q = Inr \<lparr>red = rr, green = gg, blue = bb\<rparr>"
      using q0 q(2) by (simp add: interpolate_def rr(1) gg(1) bb(1))
    then show ?thesis using rr(2) gg(2) bb(2) by simp
  qed
  then show ?thesis by (simp add: getRgb_inside [OF lo nhi] in_range)
qed

text \<open>
  C6 (as amended). For the two identical stops \<open>{10, 20, 30}\<close> over any range with
  \<open>min < max\<close>, \<open>getRgb(min)\<close> returns \<open>{10, 20, 30}\<close>, and for every value with
  \<open>min \<le> value < max\<close> \<open>getRgb\<close> returns a color whose channels are each the stop's
  channel or one less.
\<close>

theorem identical_stops_within_one:
  assumes "min_v < max_v" and "min_v \<le> val" and "val < max_v"
  shows "getRgb (initialize g min_v max_v [stop_10_20_30, stop_10_20_30] c d) min_v
       = Inr stop_10_20_30
     \<and> (\<exists>r. getRgb (initialize g min_v max_v [stop_10_20_30, stop_10_20_30] c d) val = Inr r
          \<and> (red r = 10 \<or> red r = 9)
          \<and> (green r = 20 \<or> green r = 19)
          \<and> (blue r = 30 \<or> blue r = 29))"
proof -
  let ?g = "initialize g min_v max_v [stop_10_20_30, stop_10_20_30] c d"
  have s: "m_stops ?g = [stop_10_20_30, stop_10_20_30]" and lt: "m_min ?g < m_max ?g"
    and lo: "\<not> val < m_min ?g" and hi: "val < m_max ?g"
    using assms by (simp_all add: initialize_fields not_less)
  show ?thesis
    using getRgb_two_stops_min [OF s lt] getRgb_identical_stops [OF s lt lo hi]
    by (simp add: initialize_fields)
qed

theorem identical_stops_within_one_witness:
  "(0::16 word) < 5 \<and> (0::16 word) \<le> 1 \<and> (1::16 word) < 5
   \<and> getRgb (initialize raw_object 0 5 [stop_10_20_30, stop_10_20_30] black black) 0
       = Inr stop_10_20_30
   \<and> (\<exists>r. getRgb (initialize raw_object 0 5 [stop_10_20_30, stop_10_20_30] black black) 1 = Inr r
          \<and> (red r = 10 \<or> red r = 9)
          \<and> (green r = 20 \<or> green r = 19)
          \<and> (blue r = 30 \<or> blue r = 29))"
  using identical_stops_within_one [of 0 5 1 raw_object black black] by simp

text \<open>
  The channels do fall one below: over 0..5 the value 1 gets \<open>{9, 19, 29}\<close>. There
  \<open>step\<close> is 5, \<open>bin\<close> is 0 and \<open>normalized_v\<close> is the \<open>float\<close> nearest to 0.2, which
  is 0.2000000029802...; for the red channel \<open>(1.0 - normalized_v) * 10\<close> is
  7.99999997019... in \<open>double\<close>, \<open>normalized_v * 10\<close> is 2.0000000298... and rounds to
  the \<open>float\<close> 2, and the sum 9.99999997019... is truncated to 9.
\<close>

theorem identical_stops_drift:
  "getRgb (initialize raw_object 0 5 [stop_10_20_30, stop_10_20_30] black black) 1
     = Inr \<lparr>red = 9, green = 19, blue = 29\<rparr>"
  by code_simp

section \<open>Bin selection\<close>

lemma fl32_rel_error:
  assumes "2 powi (- 126) \<le> x"
  shows "\<bar>fl32 x - x\<bar> \<le> x * 2 powi (- 24)"
proof -
  have x0: "0 < x" using assms zero_less_power_int [of "2::rat" "- 126"] by linarith
  have "- 126 \<le> ilog2 x" using x0 assms by (rule ilog2_ge)
  then have e: "float_exponent 24 (- 149) x = ilog2 x - 23"
    using x0 by (simp add: float_exponent_def)
  have "\<bar>fl32 x - x\<bar> \<le> 2 powi (ilog2 x - 23 - 1)"
    using round_float_error [of 24 "- 149" x] by (simp add: fl32_def e)
  also have "\<dots> = 2 powi (ilog2 x + (- 24))"
    by simp
  also have "\<dots> = 2 powi (ilog2 x) * 2 powi (- 24)"
    by (rule power_int_add) simp
  also have "\<dots> \<le> x * 2 powi (- 24)"
    using ilog2_bounds(1) [OF x0] by (intro mult_right_mono) simp_all
  finally show ?thesis .
qed

lemma find_bin_step:
  assumes "step_of g = Inr step" and "step \<noteq> 0" and "uint (val - m_min g) = x"
    and "0 \<le> x" and "x < 2 ^ 16"
  shows "find_bin g val = float_to_int (fl32 (of_int x / step))"
proof -
  have "\<bar>x\<bar> < 2 ^ 24" using assms(4,5) by simp
  then show ?thesis
    using assms(2) by (simp add: find_bin_def assms(1,3) float_div_def float_of_int_small)
qed

lemma find_bin_Inr_step:
  assumes "find_bin g val = Inr b"
  obtains step where "step_of g = Inr step" and "step \<noteq> 0"
proof -
  obtain step where s: "step_of g = Inr step"
    using assms by (cases "step_of g") (simp_all add: find_bin_def)
  have "step \<noteq> 0"
    using assms by (auto simp add: find_bin_def s float_div_def)
  with s show ?thesis by (rule that)
qed

lemma step_of_nonneg:
  assumes "step_of g = Inr step"
  shows "0 \<le> step"
proof -
  define r where "r = uint (m_max g - m_min g)"
  define K where "K = fl32 (of_nat (size_minus_1 (m_stops g)))"
  have r: "0 \<le> r" "r < 2 ^ 16" using uint_lt2p [of "m_max g - m_min g"] by (simp_all add: r_def)
  then have "\<bar>r\<bar> < 2 ^ 24" by simp
  then have f: "float_of_int r = of_int r" by (rule float_of_int_small)
  have K: "0 \<le> K" unfolding K_def by (rule fl32_nonneg) simp
  have "step_of g = float_div (of_int r) K"
    by (simp add: step_of_def r_def [symmetric] K_def [symmetric] f)
  then have "step = fl32 (of_int r / K)"
    using assms by (simp add: float_div_def split: if_splits)
  moreover have "0 \<le> of_int r / K" using r(1) K by simp
  ultimately show ?thesis by (simp add: fl32_nonneg)
qed

lemma offsets_ordered:
  fixes lo v1 v2 :: "16 word"
  assumes "lo \<le> v1" "v1 \<le> v2"
  shows "0 \<le> uint (v1 - lo)" and "uint (v1 - lo) \<le> uint (v2 - lo)" and "uint (v2 - lo) < 2 ^ 16"
proof -
  have le2: "lo \<le> v2" using assms by simp
  have 1: "uint (v1 - lo) = uint v1 - uint lo" using assms(1) by (simp add: uint_minus_simple_alt)
  have 2: "uint (v2 - lo) = uint v2 - uint lo" using le2 by (simp add: uint_minus_simple_alt)
  show "0 \<le> uint (v1 - lo)" by simp
  show "uint (v1 - lo) \<le> uint (v2 - lo)" using assms(2) by (simp add: 1 2 word_le_def)
  show "uint (v2 - lo) < 2 ^ 16" using uint_lt2p [of "v2 - lo"] by simp
qed

lemma float_to_int_nonneg:
  assumes "0 \<le> q" "\<lfloor>q\<rfloor> < 2 ^ 31"
  shows "float_to_int q = Inr \<lfloor>q\<rfloor>"
proof -
  have "0 \<le> \<lfloor>q\<rfloor>" using assms(1) by simp
  then show ?thesis using assms by (simp add: float_to_int_def trunc_toward_zero_def)
qed

lemma float_to_int_Inr_nonneg:
  assumes "0 \<le> q" "float_to_int q = Inr b"
  shows "b = \<lfloor>q\<rfloor>" and "\<lfloor>q\<rfloor> < 2 ^ 31"
  using assms by (simp_all add: float_to_int_def trunc_toward_zero_def Let_def split: if_splits)

lemma find_bin_mono:
  assumes lo: "m_min g \<le> v1" and le: "v1 \<le> v2" and b2: "find_bin g v2 = Inr b2"
  shows "\<exists>b1. find_bin g v1 = Inr b1 \<and> 0 \<le> b1 \<and> b1 \<le> b2"
proof -
  obtain step where s: "step_of g = Inr step" "step \<noteq> 0"
    using b2 by (rule find_bin_Inr_step)
  have step: "0 < step" using step_of_nonneg [OF s(1)] s(2) by simp
  define x1 where "x1 = uint (v1 - m_min g)"
  define x2 where "x2 = uint (v2 - m_min g)"
  have x: "0 \<le> x1" "x1 \<le> x2" "x2 < 2 ^ 16"
    using offsets_ordered [OF lo le] by (simp_all add: x1_def x2_def)
  define q1 where "q1 = fl32 (of_int x1 / step)"
  define q2 where "q2 = fl32 (of_int x2 / step)"
  have f1: "find_bin g v1 = float_to_int q1"
    using x by (simp add: find_bin_step [OF s, of v1 x1] x1_def q1_def)
  have f2: "find_bin g v2 = float_to_int q2"
    using x by (simp add: find_bin_step [OF s, of v2 x2] x2_def q2_def)
  have d: "(0::rat) \<le> of_int x1 / step" "(of_int x1 :: rat) / step \<le> of_int x2 / step"
    using x step by (simp_all add: divide_right_mono)
  have q: "0 \<le> q1" "q1 \<le> q2"
    using d by (simp_all add: q1_def q2_def fl32_nonneg fl32_mono)
  then have q2: "0 \<le> q2" by simp
  have t2: "b2 = \<lfloor>q2\<rfloor>" "\<lfloor>q2\<rfloor> < 2 ^ 31"
    using float_to_int_Inr_nonneg [OF q2] b2 f2 by simp_all
  have "\<lfloor>q1\<rfloor> \<le> \<lfloor>q2\<rfloor>" using q(2) by (rule floor_mono)
  then have le2: "\<lfloor>q1\<rfloor> \<le> b2" and "\<lfloor>q1\<rfloor> < 2 ^ 31"
    using t2 by linarith+
  then have "float_to_int q1 = Inr \<lfloor>q1\<rfloor>"
    by (intro float_to_int_nonneg [OF q(1)])
  moreover have "0 \<le> \<lfloor>q1\<rfloor>" using q(1) by simp
  ultimately show ?thesis using f1 le2 by simp
qed

lemma find_bin_min:
  assumes "find_bin g val = Inr b"
  shows "find_bin g (m_min g) = Inr 0"
proof -
  obtain step where s: "step_of g = Inr step" "step \<noteq> 0"
    using assms by (rule find_bin_Inr_step)
  have "find_bin g (m_min g) = float_to_int (fl32 (of_int 0 / step))"
    by (rule find_bin_step [OF s]) simp_all
  then show ?thesis using float_to_int_small [of 0] by (simp add: fl32_0)
qed

lemma fl32_rel_upper:
  assumes "0 \<le> y" "y = 0 \<or> 2 powi (- 126) \<le> y"
  shows "fl32 y \<le> y * (1 + 1 / 2 ^ 24)"
proof (cases "y = 0")
  case True
  then show ?thesis by (simp add: fl32_0)
next
  case False
  then have "2 powi (- 126) \<le> y" using assms(2) by simp
  then have "\<bar>fl32 y - y\<bar> \<le> y * 2 powi (- 24)" by (rule fl32_rel_error)
  then have "\<bar>fl32 y - y\<bar> \<le> y / 2 ^ 24" by (simp add: power_int_minus_divide)
  moreover have "y * (1 + 1 / 2 ^ 24) = y + y / 2 ^ 24" by (simp add: algebra_simps)
  ultimately show ?thesis by linarith
qed

lemma fl32_rel_lower:
  assumes "2 powi (- 126) \<le> y"
  shows "y * (1 - 1 / 2 ^ 24) \<le> fl32 y"
proof -
  have "\<bar>fl32 y - y\<bar> \<le> y * 2 powi (- 24)" using assms by (rule fl32_rel_error)
  then have "\<bar>fl32 y - y\<bar> \<le> y / 2 ^ 24" by (simp add: power_int_minus_divide)
  moreover have "y * (1 - 1 / 2 ^ 24) = y - y / 2 ^ 24" by (simp add: algebra_simps)
  ultimately show ?thesis by linarith
qed

text \<open>The quotient of two 16-bit integers, rounded to \<open>float\<close> and truncated, is their
  integer quotient.\<close>

lemma fl32_floor_quotient:
  assumes v: "0 \<le> v" "v < 2 ^ 16" and w: "1 \<le> w" "w < 2 ^ 16"
  shows "\<lfloor>fl32 (of_int v / of_int w)\<rfloor> = v div w"
    and "0 \<le> fl32 (of_int v / of_int w)"
proof -
  define j where "j = v div w"
  define V :: rat where "V = of_int v"
  define W :: rat where "W = of_int w"
  define J :: rat where "J = of_int j"
  define y where "y = V / W"
  have W: "1 \<le> W" "W < 65536" using w by (simp_all add: W_def)
  have V: "0 \<le> V" "V < 65536" using v by (simp_all add: V_def)
  have j0: "0 \<le> j" using v(1) w(1) by (simp add: j_def pos_imp_zdiv_nonneg_iff)
  have w0: "0 < w" using w(1) by simp
  have dm: "j * w + v mod w = v" by (simp add: j_def)
  have md: "0 \<le> v mod w" "v mod w < w" using w0 by simp_all
  have jwv: "j * w \<le> v" using dm md(1) by linarith
  moreover have "j * 1 \<le> j * w" using j0 w(1) by (intro mult_left_mono) simp_all
  ultimately have "j \<le> v" by simp
  then have j24: "\<bar>j\<bar> < 2 ^ 24" using j0 v(2) by simp
  note \<open>j * w \<le> v\<close>
  then have "(of_int (j * w) :: rat) \<le> of_int v" by (simp only: of_int_le_iff)
  then have jw: "J * W \<le> V" by (simp add: J_def W_def V_def)
  have "(j + 1) * w = j * w + w" by (simp add: algebra_simps)
  then have "v < (j + 1) * w" using dm md(2) by linarith
  then have "v + 1 \<le> (j + 1) * w" by simp
  then have "(of_int (v + 1) :: rat) \<le> of_int ((j + 1) * w)" by (simp only: of_int_le_iff)
  then have vj: "V + 1 \<le> (J + 1) * W" by (simp add: J_def W_def V_def)
  have y0: "0 \<le> y" using V W by (simp add: y_def)
  have ylo: "J \<le> y" using jw W by (simp add: y_def pos_le_divide_eq)
  have "fl32 J \<le> fl32 y" using ylo j0 by (intro fl32_mono) (simp_all add: J_def)
  then have lo: "J \<le> fl32 y" using fl32_of_int [OF j24] by (simp add: J_def)
  have norm: "y = 0 \<or> 2 powi (- 126) \<le> y"
  proof (cases "v = 0")
    case True
    then show ?thesis by (simp add: y_def V_def)
  next
    case False
    then have "1 \<le> v" using v(1) by simp
    then have "(of_int 1 :: rat) \<le> of_int v" by (simp only: of_int_le_iff)
    then have "1 \<le> V" by (simp add: V_def)
    then have "1 / 65536 \<le> V / W" using W by (simp add: field_simps)
    then have "1 / 65536 \<le> y" by (simp only: y_def)
    moreover have "(2::rat) powi (- 126) \<le> 1 / 65536" by (simp add: power_int_minus_divide)
    ultimately have "2 powi (- 126) \<le> y" by linarith
    then show ?thesis ..
  qed
  have "fl32 y \<le> y * (1 + 1 / 2 ^ 24)" using y0 norm by (rule fl32_rel_upper)
  also have "\<dots> = (V + V / 2 ^ 24) / W" by (simp add: y_def algebra_simps add_divide_distrib)
  also have "\<dots> < (V + 1) / W"
    using V W by (intro divide_strict_right_mono) simp_all
  also have "\<dots> \<le> J + 1"
    using vj W by (simp add: pos_divide_le_eq)
  finally have hi: "fl32 y < of_int (j + 1)" by (simp add: J_def)
  have "of_int j \<le> fl32 y" using lo by (simp add: J_def)
  then have "j \<le> \<lfloor>fl32 y\<rfloor>" by (simp only: le_floor_iff)
  moreover have "\<lfloor>fl32 y\<rfloor> < j + 1" using hi by (simp only: floor_less_iff)
  ultimately have "\<lfloor>fl32 y\<rfloor> = j" by linarith
  then show "\<lfloor>fl32 (of_int v / of_int w)\<rfloor> = v div w"
    by (simp add: y_def V_def W_def j_def)
  show "0 \<le> fl32 (of_int v / of_int w)"
    using fl32_nonneg [OF y0] by (simp add: y_def V_def W_def)
qed

lemma stops_count:
  assumes "2 \<le> length (m_stops g)"
  shows "size_minus_1 (m_stops g) = length (m_stops g) - 1"
    and "int (length (m_stops g) - 1) = int (length (m_stops g)) - 1"
    and "1 \<le> int (length (m_stops g) - 1)"
proof -
  have "m_stops g \<noteq> []" using assms by (cases "m_stops g") simp_all
  then show "size_minus_1 (m_stops g) = length (m_stops g) - 1"
    by (simp add: size_minus_1_def)
  show "int (length (m_stops g) - 1) = int (length (m_stops g)) - 1"
    and "1 \<le> int (length (m_stops g) - 1)"
    using assms by simp_all
qed

lemma find_bin_below_top:
  assumes lt: "m_min g < m_max g"
    and k: "2 \<le> length (m_stops g)" "length (m_stops g) \<le> 2 ^ 23"
    and lo: "m_min g \<le> val" and hi: "val < m_max g"
  shows "\<exists>b. find_bin g val = Inr b \<and> 0 \<le> b \<and> b \<le> int (length (m_stops g)) - 2"
proof -
  define r where "r = uint (m_max g - m_min g)"
  define v where "v = uint (val - m_min g)"
  define nn where "nn = length (m_stops g) - 1"
  define n where "n = int nn"
  define N :: rat where "N = of_int n"
  define R :: rat where "R = of_int r"
  define V :: rat where "V = of_int v"
  have r: "0 < r" "r < 2 ^ 16" using range_pos [OF lt] by (simp_all add: r_def)
  have sz: "size_minus_1 (m_stops g) = nn"
    using stops_count(1) [OF k(1)] by (simp add: nn_def)
  have n: "1 \<le> n" "n < 2 ^ 23" "n = int (length (m_stops g)) - 1"
    using stops_count(2,3) [OF k(1)] k(2) by (simp_all add: n_def nn_def)
  have nlo: "\<not> val < m_min g" and nhi: "\<not> m_max g < val"
    using lo hi by (simp_all add: not_less less_imp_le)
  have "v \<noteq> r" using offset_bounds(3) [OF nlo nhi] hi by (simp add: v_def r_def)
  then have v: "0 \<le> v" "v + 1 \<le> r"
    using offset_bounds(1,2) [OF nlo nhi] by (simp_all add: v_def r_def)
  have N: "1 \<le> N" "N < 2 ^ 23"
  proof -
    have "(of_int 1 :: rat) \<le> of_int n" using n(1) by (simp only: of_int_le_iff)
    then show "1 \<le> N" by (simp add: N_def)
    have "(of_int n :: rat) < of_int (2 ^ 23)" using n(2) by (simp only: of_int_less_iff)
    then show "N < 2 ^ 23" by (simp add: N_def)
  qed
  have R: "1 \<le> R" "R < 65536" using r by (simp_all add: R_def)
  have "(of_int (v + 1) :: rat) \<le> of_int r" using v(2) by (simp only: of_int_le_iff)
  then have V: "0 \<le> V" "V + 1 \<le> R" using v(1) by (simp_all add: V_def R_def)
  have n24: "\<bar>n\<bar> < 2 ^ 24" using n by simp
  have r24: "\<bar>r\<bar> < 2 ^ 24" using r by simp
  have K: "fl32 (of_nat nn) = N"
    using fl32_of_int [OF n24] by (simp add: N_def n_def)
  define x where "x = R / N"
  have x0: "0 < x" using R N by (simp add: x_def)
  have step: "step_of g = Inr (fl32 x)"
    using N by (simp add: step_of_def r_def [symmetric] sz K
        float_of_int_small [OF r24] float_div_def x_def R_def)
  have "1 / 2 ^ 23 \<le> 1 / N" using N by (simp add: field_simps)
  also have "\<dots> \<le> x" using R N by (simp add: x_def divide_right_mono)
  finally have x23: "1 / 2 ^ 23 \<le> x" .
  moreover have "(2::rat) powi (- 126) \<le> 1 / 2 ^ 23" by (simp add: power_int_minus_divide)
  ultimately have xn: "2 powi (- 126) \<le> x" by linarith
  have slo: "x * (1 - 1 / 2 ^ 24) \<le> fl32 x" using xn by (rule fl32_rel_lower)
  have shi: "fl32 x \<le> x * (1 + 1 / 2 ^ 24)" using x0 xn by (intro fl32_rel_upper) simp_all
  have spos: "0 < fl32 x"
  proof -
    have "0 < x * (1 - 1 / 2 ^ 24)" using x0 by simp
    then show ?thesis using slo by linarith
  qed
  have "x \<le> R" using R N by (simp add: x_def field_simps)
  then have "x * (1 + 1 / 2 ^ 24) \<le> 65536 * 2"
    using R x0 by (intro mult_mono) simp_all
  then have s17: "fl32 x \<le> 131072" using shi by simp
  have "N * (x * (1 - 1 / 2 ^ 24)) \<le> N * fl32 x"
    using slo N by (intro mult_left_mono) simp_all
  moreover have "N * (x * (1 - 1 / 2 ^ 24)) = R * (1 - 1 / 2 ^ 24)"
    using N by (simp add: x_def)
  ultimately have Ns: "R * (1 - 1 / 2 ^ 24) \<le> N * fl32 x" by simp
  have "V * (1 + 1 / 2 ^ 24) \<le> (R - 1) * (1 + 1 / 2 ^ 24)"
    using V by (intro mult_right_mono) simp_all
  also have "\<dots> < R * (1 - 1 / 2 ^ 24)"
    using R by (simp add: algebra_simps)
  finally have Vs: "V * (1 + 1 / 2 ^ 24) < N * fl32 x" using Ns by simp
  define y where "y = V / fl32 x"
  have y0: "0 \<le> y" using V spos by (simp add: y_def)
  have norm: "y = 0 \<or> 2 powi (- 126) \<le> y"
  proof (cases "v = 0")
    case True
    then show ?thesis by (simp add: y_def V_def)
  next
    case False
    then have "1 \<le> v" using v(1) by simp
    then have "(of_int 1 :: rat) \<le> of_int v" by (simp only: of_int_le_iff)
    then have "1 \<le> V" by (simp add: V_def)
    then have "1 / 131072 \<le> V / fl32 x"
      using spos s17 by (simp add: field_simps)
    then have "1 / 131072 \<le> y" by (simp only: y_def)
    moreover have "(2::rat) powi (- 126) \<le> 1 / 131072" by (simp add: power_int_minus_divide)
    ultimately have "2 powi (- 126) \<le> y" by linarith
    then show ?thesis ..
  qed
  have "fl32 y \<le> y * (1 + 1 / 2 ^ 24)" using y0 norm by (rule fl32_rel_upper)
  also have "\<dots> = V * (1 + 1 / 2 ^ 24) / fl32 x" by (simp add: y_def)
  also have "\<dots> < N"
    using Vs spos by (simp add: pos_divide_less_eq mult.commute)
  finally have "fl32 y < of_int n" by (simp add: N_def)
  then have "\<lfloor>fl32 y\<rfloor> < n" by (simp only: floor_less_iff)
  then have fl: "\<lfloor>fl32 y\<rfloor> \<le> n - 1" by simp
  have q0: "0 \<le> fl32 y" using y0 by (rule fl32_nonneg)
  have "n < 2147483648" using n(2) by simp
  then have "\<lfloor>fl32 y\<rfloor> < 2147483648" using fl by linarith
  then have fl31: "\<lfloor>fl32 y\<rfloor> < 2 ^ 31" by simp
  have "v < 2 ^ 16" using v(2) r(2) by simp
  then have "find_bin g val = float_to_int (fl32 y)"
    using find_bin_step [OF step _ _ v(1), of val] spos by (simp add: v_def y_def V_def)
  then have "find_bin g val = Inr \<lfloor>fl32 y\<rfloor>"
    using float_to_int_nonneg [OF q0 fl31] by simp
  moreover have "0 \<le> \<lfloor>fl32 y\<rfloor>" using q0 by simp
  ultimately show ?thesis using fl n(3) by simp
qed

lemma find_bin_divisible:
  assumes lt: "m_min g < m_max g"
    and k: "2 \<le> length (m_stops g)"
    and d: "uint (m_max g - m_min g) = w * int (length (m_stops g) - 1)"
    and lo: "m_min g \<le> val" and hi: "val \<le> m_max g"
  shows "find_bin g val = Inr (uint (val - m_min g) div w)"
    and "1 \<le> w"
proof -
  define r where "r = uint (m_max g - m_min g)"
  define v where "v = uint (val - m_min g)"
  define nn where "nn = length (m_stops g) - 1"
  define n where "n = int nn"
  have r: "0 < r" "r < 2 ^ 16" using range_pos [OF lt] by (simp_all add: r_def)
  have r16: "r < 65536" using r(2) by simp
  have sz: "size_minus_1 (m_stops g) = nn"
    using stops_count(1) [OF k] by (simp add: nn_def)
  have n: "1 \<le> n" using stops_count(3) [OF k] by (simp add: n_def nn_def)
  have rw: "r = w * n" using d by (simp add: r_def n_def nn_def)
  have w0: "0 < w" using r(1) n unfolding rw by (simp add: zero_less_mult_iff)
  then show w1: "1 \<le> w" by simp
  have "w * 1 \<le> w * n" using w0 n by (intro mult_left_mono) simp_all
  then have "w \<le> r" by (simp add: rw)
  then have w16: "w < 2 ^ 16" using r16 by simp
  have "1 * n \<le> w * n" using w1 n by (intro mult_right_mono) simp_all
  then have "n \<le> r" by (simp add: rw)
  then have n24: "\<bar>n\<bar> < 2 ^ 24" using r16 n by simp
  have r24: "\<bar>r\<bar> < 2 ^ 24" using r by simp
  have w24: "\<bar>w\<bar> < 2 ^ 24" using w0 w16 by simp
  have K: "fl32 (of_nat nn) = of_int n"
    using fl32_of_int [OF n24] by (simp add: n_def)
  have "(of_int r :: rat) / of_int n = of_int w" using n by (simp add: rw)
  then have step: "step_of g = Inr (of_int w)"
    using n by (simp add: step_of_def r_def [symmetric] sz K
        float_of_int_small [OF r24] float_div_def fl32_of_int [OF w24])
  have nlo: "\<not> val < m_min g" and nhi: "\<not> m_max g < val"
    using lo hi by (simp_all add: not_less)
  have v: "0 \<le> v" "v < 2 ^ 16"
    using offset_bounds(1,2) [OF nlo nhi] r(2) by (simp_all add: v_def r_def)
  note q = fl32_floor_quotient [OF v w1 w16]
  have "0 \<le> v div w" using v(1) w0 by (simp add: pos_imp_zdiv_nonneg_iff)
  moreover have "v div w \<le> v" using q(1) v w0
    by (metis div_by_1 zdiv_mono2 w1 zero_less_one)
  ultimately have "\<lfloor>fl32 (of_int v / of_int w)\<rfloor> < 2147483648"
    using v(2) by (simp only: q(1)) simp
  then have fl31: "\<lfloor>fl32 (of_int v / of_int w)\<rfloor> < 2 ^ 31" by simp
  have "find_bin g val = float_to_int (fl32 (of_int v / of_int w))"
    using find_bin_step [OF step _ _ v, of val] w0 by (simp add: v_def)
  then have "find_bin g val = Inr \<lfloor>fl32 (of_int v / of_int w)\<rfloor>"
    using float_to_int_nonneg [OF q(2) fl31] by simp
  then have "find_bin g val = Inr (v div w)" by (simp only: q(1))
  then show "find_bin g val = Inr (uint (val - m_min g) div w)" by (simp only: v_def)
qed

lemma bins_reached:
  assumes lt: "m_min g < m_max g"
    and k: "2 \<le> length (m_stops g)"
    and d: "uint (m_max g - m_min g) = w * int (length (m_stops g) - 1)"
  shows "find_bin g ` {m_min g ..< m_max g} = Inr ` {0 .. int (length (m_stops g)) - 2}"
proof -
  define n where "n = int (length (m_stops g) - 1)"
  define r where "r = uint (m_max g - m_min g)"
  have n: "1 \<le> n" "int (length (m_stops g)) - 2 = n - 1"
    using stops_count(2,3) [OF k] by (simp_all add: n_def)
  have le: "m_min g \<le> m_max g" using lt by simp
  have r: "r = uint (m_max g) - uint (m_min g)" "r = w * n"
    using le d by (simp_all add: r_def n_def uint_minus_simple_alt)
  have w: "1 \<le> w" using find_bin_divisible(2) [OF lt k d le order_refl] .
  then have w0: "0 < w" by simp
  have formula: "find_bin g val = Inr (uint (val - m_min g) div w)"
    if "m_min g \<le> val" "val < m_max g" for val
    using find_bin_divisible(1) [OF lt k d that(1)] that(2) by simp
  show ?thesis
  proof (intro equalityI subsetI)
    fix b :: "error + int"
    assume "b \<in> find_bin g ` {m_min g ..< m_max g}"
    then obtain val where val: "m_min g \<le> val" "val < m_max g" and b: "b = find_bin g val"
      by auto
    define v where "v = uint (val - m_min g)"
    have v: "v = uint val - uint (m_min g)" using val(1) by (simp add: v_def uint_minus_simple_alt)
    have v0: "0 \<le> v" by (simp add: v_def)
    have "uint val < uint (m_max g)" using val(2) by (simp add: word_less_alt)
    then have vr: "v < n * w" using v r by (simp add: mult.commute)
    have dm: "v div w * w + v mod w = v" by simp
    have md: "0 \<le> v mod w" using w0 by simp
    have "v div w * w < n * w" using dm md vr by linarith
    then have "v div w < n" using w0 by (simp add: mult_less_cancel_right)
    moreover have "0 \<le> v div w" using v0 w0 by (simp add: pos_imp_zdiv_nonneg_iff)
    ultimately have "v div w \<in> {0 .. n - 1}" by simp
    then show "b \<in> Inr ` {0 .. int (length (m_stops g)) - 2}"
      by (simp add: b formula [OF val] v_def [symmetric] n(2))
  next
    fix b :: "error + int"
    assume "b \<in> Inr ` {0 .. int (length (m_stops g)) - 2}"
    then obtain j where j: "0 \<le> j" "j \<le> n - 1" and b: "b = Inr j"
      by (auto simp add: n(2))
    define val :: "16 word" where "val = word_of_int (uint (m_min g) + j * w)"
    have "j * w \<le> (n - 1) * w" using j(2) w0 by (intro mult_right_mono) simp_all
    also have "\<dots> = r - w" by (simp add: r(2) algebra_simps)
    finally have jw: "j * w < r" using w0 by simp
    have jw0: "0 \<le> j * w" using j(1) w0 by simp
    have "uint (m_max g) < 2 ^ 16" using uint_lt2p [of "m_max g"] by simp
    then have range: "0 \<le> uint (m_min g) + j * w" "uint (m_min g) + j * w < 2 ^ 16"
      using jw jw0 r(1) by simp_all
    have "uint val = (uint (m_min g) + j * w) mod 2 ^ LENGTH(16)"
      unfolding val_def by (rule uint_word_of_int)
    also have "\<dots> = uint (m_min g) + j * w"
      using range by (simp add: mod_pos_pos_trivial)
    finally have uval: "uint val = uint (m_min g) + j * w" .
    have lo: "m_min g \<le> val" using jw0 by (simp add: word_le_def uval)
    have hi: "val < m_max g" using jw r(1) by (simp add: word_less_alt uval)
    have "uint (val - m_min g) = j * w" using lo by (simp add: uint_minus_simple_alt uval)
    then have "find_bin g val = Inr j" using formula [OF lo hi] w0 by simp
    then show "b \<in> find_bin g ` {m_min g ..< m_max g}"
      using lo hi by (auto simp add: b intro!: image_eqI [where x = val])
  qed
qed

text \<open>
  Without the divisibility the last bin can stay empty below \<open>max\<close>: with 6846 stops over
  0..6846 \<open>step\<close> is the \<open>float\<close> 4194917 / 4194304, the values 6844 and 6845 both get the
  bin 6843, and the bin 6844 is reached at \<open>max\<close> only.
\<close>

lemma bins_without_divisibility:
  assumes "m_min g = 0" "m_max g = 6846" "length (m_stops g) = 6846"
  shows "find_bin g 6844 = Inr 6843" and "find_bin g 6845 = Inr 6843"
    and "find_bin g 6846 = Inr 6844"
proof -
  have ne: "m_stops g \<noteq> []" using assms(3) by auto
  have k: "fl32 6845 = 6845" using fl32_of_int [of 6845] by simp
  have r: "fl32 6846 = 6846" using fl32_of_int [of 6846] by simp
  have v: "fl32 6844 = 6844" using fl32_of_int [of 6844] by simp
  have s: "fl32 (6846 / 6845) = 4194917 / 4194304" by code_simp
  have step: "step_of g = Inr (4194917 / 4194304)"
    by (simp add: step_of_def assms size_minus_1_def ne float_of_int_def float_div_def k r s)
  have q: "float_to_int (fl32 (6844 / (4194917 / 4194304))) = Inr 6843"
    "float_to_int (fl32 (6845 / (4194917 / 4194304))) = Inr 6843"
    "float_to_int (fl32 (6846 / (4194917 / 4194304))) = Inr 6844"
    by code_simp+
  show "find_bin g 6844 = Inr 6843" and "find_bin g 6845 = Inr 6843"
    and "find_bin g 6846 = Inr 6844"
    using q by (simp_all add: find_bin_def step assms(1) float_of_int_def float_div_def k r v)
qed

text \<open>
  C8 (as amended). For every gradient with \<open>min < max\<close> and \<open>k\<close> stops,
  \<open>2 \<le> k \<le> 2 ^ 23\<close>, the bin index is defined for every value with
  \<open>min \<le> value < max\<close>, it is 0 at \<open>min\<close>, it is a non-decreasing function of the value,
  and it lies between 0 and \<open>k - 2\<close>. When \<open>max - min\<close> is \<open>w\<close> times \<open>k - 1\<close>, the bin
  index of such a value is \<open>(value - min) div w\<close>, and the bin indices of these values are
  exactly the \<open>k - 1\<close> numbers from 0 to \<open>k - 2\<close>.
\<close>

theorem bin_index_steps:
  assumes "m_min g < m_max g"
    and "2 \<le> length (m_stops g)" and "length (m_stops g) \<le> 2 ^ 23"
    and "m_min g \<le> v1" and "v1 \<le> v2" and "v2 < m_max g"
  shows "find_bin g (m_min g) = Inr 0
     \<and> (\<exists>b1 b2. find_bin g v1 = Inr b1 \<and> find_bin g v2 = Inr b2
           \<and> 0 \<le> b1 \<and> b1 \<le> b2 \<and> b2 \<le> int (length (m_stops g)) - 2)
     \<and> (uint (m_max g - m_min g) = w * int (length (m_stops g) - 1) \<longrightarrow>
           find_bin g v1 = Inr (uint (v1 - m_min g) div w)
         \<and> find_bin g ` {m_min g ..< m_max g} = Inr ` {0 .. int (length (m_stops g)) - 2})"
proof -
  have lo2: "m_min g \<le> v2" using assms(4,5) by simp
  have hi1: "v1 < m_max g" using assms(5,6) by simp
  obtain b2 where b2: "find_bin g v2 = Inr b2" "b2 \<le> int (length (m_stops g)) - 2"
    using find_bin_below_top [OF assms(1-3) lo2 assms(6)] by blast
  obtain b1 where b1: "find_bin g v1 = Inr b1" "0 \<le> b1" "b1 \<le> b2"
    using find_bin_mono [OF assms(4,5) b2(1)] by blast
  have "find_bin g v1 = Inr (uint (v1 - m_min g) div w)"
    if "uint (m_max g - m_min g) = w * int (length (m_stops g) - 1)"
    using find_bin_divisible(1) [OF assms(1,2) that assms(4)] hi1 by simp
  then show ?thesis
    using find_bin_min [OF b2(1)] b1 b2 bins_reached [OF assms(1,2)] by auto
qed

theorem bin_index_steps_witness:
  "(0::16 word) < 100
   \<and> 2 \<le> length (m_stops (initialize_default raw_object 0 100 five_stops))
   \<and> length (m_stops (initialize_default raw_object 0 100 five_stops)) \<le> 2 ^ 23
   \<and> (0::16 word) \<le> 30 \<and> (30::16 word) \<le> 80 \<and> (80::16 word) < 100
   \<and> uint (100 - 0 :: 16 word) = 25 * int (length five_stops - 1)
   \<and> find_bin (initialize_default raw_object 0 100 five_stops) 0 = Inr 0
   \<and> (\<exists>b1 b2. find_bin (initialize_default raw_object 0 100 five_stops) 30 = Inr b1
         \<and> find_bin (initialize_default raw_object 0 100 five_stops) 80 = Inr b2
         \<and> 0 \<le> b1 \<and> b1 \<le> b2 \<and> b2 \<le> 3)
   \<and> find_bin (initialize_default raw_object 0 100 five_stops) 30 = Inr 1
   \<and> find_bin (initialize_default raw_object 0 100 five_stops) ` {0 ..< 100} = Inr ` {0 .. 3}"
  using bin_index_steps [of "initialize_default raw_object 0 100 five_stops" 30 80 25]
  by (auto simp add: initialize_default_def initialize_def)


text \<open>
  The number of bins the values of \<open>[min, max]\<close> reach is not \<open>k - 1\<close>: with two stops over
  0..100 the bins 0 and 1 are reached, two where \<open>k - 1 = 1\<close>; with five stops over 0..1
  the only two values get the bins 0 and 4, two where \<open>k - 1 = 4\<close>.
\<close>

theorem bin_count_is_not_stops_minus_one:
  "length (m_stops (initialize_default raw_object 0 100 [white, pure_red])) - 1 = 1
   \<and> find_bin (initialize_default raw_object 0 100 [white, pure_red]) 0 = Inr 0
   \<and> find_bin (initialize_default raw_object 0 100 [white, pure_red]) 100 = Inr 1
   \<and> length (m_stops (initialize_default raw_object 0 1 five_stops)) - 1 = 4
   \<and> find_bin (initialize_default raw_object 0 1 five_stops) 0 = Inr 0
   \<and> find_bin (initialize_default raw_object 0 1 five_stops) 1 = Inr 4"
  by code_simp

end
